theory Spec2Isabelle
  imports Main "HOL-Library.Word" "HOL-Library.AList"
begin

section \<open>Data model of \<open>src/App.tsx\<close>\<close>

text \<open>
  A JavaScript string is a sequence of UTF-16 code units. Identities, display names,
  prompts and data URLs are all such strings.
\<close>

type_synonym jsstring = "16 word list"

definition js :: "string \<Rightarrow> jsstring" where
  "js s = map (\<lambda>c. word_of_nat (of_char c)) s"

text \<open>
  JavaScript truthiness of a \<open>string | null\<close> value: \<open>null\<close> and the empty string
  are falsy, every other string is truthy.
\<close>

fun truthy :: "jsstring option \<Rightarrow> bool" where
  "truthy None = False"
| "truthy (Some v) = (v \<noteq> [])"

text \<open>
  \<open>String.prototype.trim\<close> strips the code units of the ECMAScript productions
  WhiteSpace and LineTerminator from both ends.
\<close>

definition is_js_space :: "16 word \<Rightarrow> bool" where
  "is_js_space c \<longleftrightarrow>
     c = 0x0009 \<or> c = 0x000A \<or> c = 0x000B \<or> c = 0x000C \<or> c = 0x000D \<or> c = 0x0020 \<or>
     c = 0x00A0 \<or> c = 0x1680 \<or> (0x2000 \<le> c \<and> c \<le> 0x200A) \<or> c = 0x2028 \<or>
     c = 0x2029 \<or> c = 0x202F \<or> c = 0x205F \<or> c = 0x3000 \<or> c = 0xFEFF"

definition trim :: "jsstring \<Rightarrow> jsstring" where
  "trim s = rev (dropWhile is_js_space (rev (dropWhile is_js_space s)))"

text \<open>
  A \<open>File\<close>: its name, the \<open>type\<close> option it was constructed with, and its bytes.
\<close>

record File =
  fname :: jsstring
  ftype :: jsstring
  fbytes :: "8 word list"

text \<open>
  \<open>interface ImageState\<close>. The field \<open>id\<close> is called \<open>id_image\<close> here, since \<open>id\<close> is
  the identity function of HOL. \<open>historyIndex\<close> is a JavaScript number that the code
  only ever changes by adding or subtracting one, hence an integer.
\<close>

record ImageState =
  id_image :: jsstring
  name :: jsstring
  originalFile :: File
  history :: "File list"
  historyIndex :: int

datatype Tab = Retouch | Adjust | Filters | CropTab

text \<open>A value that was thrown: an \<open>Error\<close> with its message, or anything else.\<close>

datatype exn = Error jsstring | NonError

text \<open>The outcome of a promise, as \<open>Promise.allSettled\<close> reports it.\<close>

datatype 'a settled = Fulfilled 'a | Rejected exn

text \<open>
  The texts handed to \<open>setError\<close>, one constructor per template literal of the source,
  carrying the values the template interpolates:
  \<^item> \<open>NoImageLoaded\<close>: "Tidak ada gambar yang dimuat untuk diedit."
  \<^item> \<open>NoPrompt\<close>: "Silakan masukkan deskripsi untuk editan Anda."
  \<^item> \<open>NoHotspot\<close>: "Silakan klik pada gambar untuk memilih area yang akan diedit."
  \<^item> \<open>GenerateFailed m\<close>: "Gagal membuat gambar. m"
  \<^item> \<open>SelectAtLeastOne op\<close>: "Pilih setidaknya satu gambar untuk menerapkan op."
  \<^item> \<open>ApplyFailed op m\<close>: "Gagal menerapkan op. m"
  \<^item> \<open>BatchFailed op n names\<close>: "Gagal menerapkan op pada n gambar: names joined
    by a comma and a space. Gambar lainnya berhasil diperbarui."
\<close>

datatype app_error =
    NoImageLoaded
  | NoPrompt
  | NoHotspot
  | GenerateFailed jsstring
  | SelectAtLeastOne jsstring
  | ApplyFailed jsstring jsstring
  | BatchFailed jsstring nat "jsstring list"

datatype loading_msg = AIWorking | Upscaling

type_synonym point = "int \<times> int"
type_synonym rect = "int \<times> int \<times> int \<times> int"

text \<open>
  The \<open>useState\<close> cells of the \<open>App\<close> component that the handlers below read or write.
\<close>

record App =
  images :: "ImageState list"
  activeImageId :: "jsstring option"
  selectedImageIds :: "jsstring set"
  prompt :: jsstring
  isLoading :: bool
  loadingMessage :: loading_msg
  error :: "app_error option"
  editHotspot :: "point option"
  displayHotspot :: "point option"
  activeTab :: Tab
  crop :: "rect option"
  completedCrop :: "rect option"
  previewImage :: "File option"

definition initialState :: App where
  "initialState = \<lparr> images = [], activeImageId = None, selectedImageIds = {},
     prompt = [], isLoading = False, loadingMessage = AIWorking, error = None,
     editHotspot = None, displayHotspot = None, activeTab = Retouch, crop = None,
     completedCrop = None, previewImage = None \<rparr>"

section \<open>Array primitives\<close>

text \<open>
  \<open>xs[i]\<close>: \<open>undefined\<close> (here \<open>None\<close>) when \<open>i\<close> is negative or not below the length.
\<close>

definition js_index :: "'a list \<Rightarrow> int \<Rightarrow> 'a option" where
  "js_index xs i = (if 0 \<le> i \<and> i < int (length xs) then Some (xs ! nat i) else None)"

text \<open>
  \<open>xs.slice(0, e)\<close>: a negative \<open>e\<close> counts from the end of the array, and the end is
  clamped to the bounds of the array.
\<close>

definition js_slice0 :: "'a list \<Rightarrow> int \<Rightarrow> 'a list" where
  "js_slice0 xs e =
     (let n = int (length xs);
          k = (if e < 0 then max (n + e) 0 else min e n)
      in take (nat k) xs)"

text \<open>\<open>xs.find(p)\<close>: the first element that satisfies \<open>p\<close>.\<close>

fun js_find :: "('a \<Rightarrow> bool) \<Rightarrow> 'a list \<Rightarrow> 'a option" where
  "js_find p [] = None"
| "js_find p (x # xs) = (if p x then Some x else js_find p xs)"

section \<open>Derived values of a render\<close>

definition activeImageState :: "App \<Rightarrow> ImageState option" where
  "activeImageState s = js_find (\<lambda>img. Some (id_image img) = activeImageId s) (images s)"

definition currentImage :: "App \<Rightarrow> File option" where
  "currentImage s =
     (case activeImageState s of
        None \<Rightarrow> None
      | Some a \<Rightarrow> js_index (history a) (historyIndex a))"

definition isPreviewing :: "App \<Rightarrow> bool" where
  "isPreviewing s = (previewImage s \<noteq> None)"

definition canUndo :: "App \<Rightarrow> bool" where
  "canUndo s = ((case activeImageState s of None \<Rightarrow> 0 | Some a \<Rightarrow> historyIndex a) > 0)"

definition canRedo :: "App \<Rightarrow> bool" where
  "canRedo s =
     (case activeImageState s of
        None \<Rightarrow> False
      | Some a \<Rightarrow> historyIndex a < int (length (history a)) - 1)"

section \<open>History operations\<close>

text \<open>
  The body that \<open>addImageToHistory\<close> and the batch commit of \<open>handleBatchOperation\<close>
  both apply to the image they address: cut the history after the cursor, push the new
  file, move the cursor to the last index.
\<close>

definition pushHistory :: "ImageState \<Rightarrow> File \<Rightarrow> ImageState" where
  "pushHistory img newImageFile =
     (let newHistory = js_slice0 (history img) (historyIndex img + 1) @ [newImageFile]
      in img\<lparr> history := newHistory, historyIndex := int (length newHistory) - 1 \<rparr>)"

definition addImageToHistory :: "File \<Rightarrow> jsstring \<Rightarrow> App \<Rightarrow> App" where
  "addImageToHistory newImageFile imageId s =
     (let s1 = s\<lparr> images :=
                 map (\<lambda>img. if id_image img = imageId
                            then pushHistory img newImageFile else img) (images s) \<rparr>
      in if Some imageId = activeImageId s
         then s1\<lparr> crop := None, completedCrop := None \<rparr>
         else s1)"

definition handleUndo :: "App \<Rightarrow> App" where
  "handleUndo s =
     (if canUndo s \<and> truthy (activeImageId s)
      then s\<lparr> images :=
               map (\<lambda>img. if Some (id_image img) = activeImageId s
                          then img\<lparr> historyIndex := historyIndex img - 1 \<rparr> else img) (images s),
             editHotspot := None, displayHotspot := None \<rparr>
      else s)"

definition handleRedo :: "App \<Rightarrow> App" where
  "handleRedo s =
     (if canRedo s \<and> truthy (activeImageId s)
      then s\<lparr> images :=
               map (\<lambda>img. if Some (id_image img) = activeImageId s
                          then img\<lparr> historyIndex := historyIndex img + 1 \<rparr> else img) (images s),
             editHotspot := None, displayHotspot := None \<rparr>
      else s)"

definition handleReset :: "App \<Rightarrow> App" where
  "handleReset s =
     s\<lparr> images :=
         map (\<lambda>img. if Some (id_image img) = activeImageId s
                    then img\<lparr> history := [originalFile img], historyIndex := 0 \<rparr> else img)
           (images s),
       error := None, editHotspot := None, displayHotspot := None \<rparr>"

section \<open>Collection operations\<close>

text \<open>
  \<open>handleImageUploads\<close>. The identity of a new entry is built from the file name, from
  \<open>Date.now()\<close> and from \<open>Math.random()\<close>; the renderings of the latter two are not
  determined by the program, so each file comes with the pair that was drawn for it.
\<close>

definition newImage :: "File \<times> jsstring \<times> jsstring \<Rightarrow> ImageState" where
  "newImage u =
     (case u of (file, now, rnd) \<Rightarrow>
        \<lparr> id_image = fname file @ js ''-'' @ now @ js ''-'' @ rnd,
          name = fname file, originalFile = file, history = [file], historyIndex = 0 \<rparr>)"

definition handleImageUploads :: "(File \<times> jsstring \<times> jsstring) list \<Rightarrow> App \<Rightarrow> App" where
  "handleImageUploads files s =
     (let newImages = map newImage files;
          s1 = s\<lparr> error := None, images := images s @ newImages \<rparr>;
          firstNewImageId = (case newImages of [] \<Rightarrow> None | x # _ \<Rightarrow> Some (id_image x));
          s2 = (if truthy firstNewImageId
                then (if \<not> truthy (activeImageId s)
                      then s1\<lparr> activeImageId := firstNewImageId \<rparr> else s1)
                     \<lparr> selectedImageIds := selectedImageIds s \<union> {the firstNewImageId} \<rparr>
                else s1)
      in s2\<lparr> editHotspot := None, displayHotspot := None, activeTab := Retouch,
              crop := None, completedCrop := None \<rparr>)"

definition handleFileSelect :: "(File \<times> jsstring \<times> jsstring) list option \<Rightarrow> App \<Rightarrow> App" where
  "handleFileSelect files s =
     (case files of
        None \<Rightarrow> s
      | Some fs \<Rightarrow> if length fs > 0 then handleImageUploads fs s else s)"

definition handleDeleteImage :: "jsstring \<Rightarrow> App \<Rightarrow> App" where
  "handleDeleteImage idToDelete s =
     (let newImages = filter (\<lambda>img. id_image img \<noteq> idToDelete) (images s);
          s1 = (if activeImageId s = Some idToDelete
                then s\<lparr> activeImageId :=
                         (case newImages of [] \<Rightarrow> None | x # _ \<Rightarrow> Some (id_image x)) \<rparr>
                else s)
      in s1\<lparr> images := newImages, selectedImageIds := selectedImageIds s - {idToDelete} \<rparr>)"

definition handleSelectImage :: "jsstring \<Rightarrow> App \<Rightarrow> App" where
  "handleSelectImage i s =
     (if Some i = activeImageId s then s
      else s\<lparr> activeImageId := Some i, editHotspot := None, displayHotspot := None,
              activeTab := Retouch, crop := None, completedCrop := None, error := None \<rparr>)"

definition handleToggleSelection :: "jsstring \<Rightarrow> App \<Rightarrow> App" where
  "handleToggleSelection i s =
     s\<lparr> selectedImageIds :=
         (if i \<in> selectedImageIds s then selectedImageIds s - {i}
          else insert i (selectedImageIds s)) \<rparr>"

definition handleSelectAll :: "App \<Rightarrow> App" where
  "handleSelectAll s = s\<lparr> selectedImageIds := set (map id_image (images s)) \<rparr>"

definition handleDeselectAll :: "App \<Rightarrow> App" where
  "handleDeselectAll s = s\<lparr> selectedImageIds := {} \<rparr>"

definition handleUploadNew :: "App \<Rightarrow> App" where
  "handleUploadNew s =
     s\<lparr> images := [], activeImageId := None, selectedImageIds := {}, error := None,
       prompt := [], editHotspot := None, displayHotspot := None \<rparr>"

section \<open>Decoding a data URL\<close>

text \<open>\<open>s.split(d)\<close> for a separator of one code unit.\<close>

fun split_on :: "16 word \<Rightarrow> jsstring \<Rightarrow> jsstring list" where
  "split_on d [] = [Nil]"
| "split_on d (c # cs) =
     (if c = d then [] # split_on d cs
      else (case split_on d cs of
              [] \<Rightarrow> [c # Nil]
            | w # ws \<Rightarrow> (c # w) # ws))"

text \<open>
  The capture group of \<open>/:(.*?);/\<close>. From a colon the lazy group grows one code unit
  at a time until a semicolon follows; the dot stops at a line terminator, in which case
  the search goes on from the next colon.
\<close>

definition is_line_terminator :: "16 word \<Rightarrow> bool" where
  "is_line_terminator c \<longleftrightarrow> c = 0x000A \<or> c = 0x000D \<or> c = 0x2028 \<or> c = 0x2029"

fun upto_semicolon :: "jsstring \<Rightarrow> jsstring option" where
  "upto_semicolon [] = None"
| "upto_semicolon (c # cs) =
     (if c = 0x3B then Some []
      else if is_line_terminator c then None
      else map_option (\<lambda>g. c # g) (upto_semicolon cs))"

fun mimeMatch :: "jsstring \<Rightarrow> jsstring option" where
  "mimeMatch [] = None"
| "mimeMatch (c # cs) =
     (if c = 0x3A
      then (case upto_semicolon cs of Some g \<Rightarrow> Some g | None \<Rightarrow> mimeMatch cs)
      else mimeMatch cs)"

text \<open>
  The loop \<open>while (n--) u8arr[n] = bstr.charCodeAt(n)\<close> over a zero-filled
  \<open>Uint8Array\<close>, which keeps the low eight bits of what is stored.
\<close>

fun fill_u8 :: "nat \<Rightarrow> jsstring \<Rightarrow> 8 word list \<Rightarrow> 8 word list" where
  "fill_u8 0 bstr u8arr = u8arr"
| "fill_u8 (Suc n) bstr u8arr = fill_u8 n bstr (u8arr[n := ucast (bstr ! n)])"

text \<open>
  The \<open>type\<close> of a \<open>File\<close> built with \<open>new File(bits, name, {type: t})\<close>: the empty
  string if \<open>t\<close> has a code unit outside U+0020 to U+007E, and \<open>t\<close> in ASCII lower case
  otherwise.
\<close>

definition ascii_lower :: "16 word \<Rightarrow> 16 word" where
  "ascii_lower c = (if 0x41 \<le> c \<and> c \<le> 0x5A then c + 0x20 else c)"

definition blobType :: "jsstring \<Rightarrow> jsstring" where
  "blobType t = (if list_all (\<lambda>c. 0x20 \<le> c \<and> c \<le> 0x7E) t then map ascii_lower t else [])"

text \<open>
  \<open>dataURLtoFile\<close>. The browser's \<open>atob\<close> is not part of the program and is a parameter:
  it returns the decoded binary string or throws.
\<close>

type_synonym atob_fn = "jsstring \<Rightarrow> exn + jsstring"

definition dataURLtoFile :: "atob_fn \<Rightarrow> jsstring \<Rightarrow> jsstring \<Rightarrow> exn + File" where
  "dataURLtoFile atob dataurl filename =
     (let arr = split_on 0x2C dataurl in
      if length arr < 2 then Inl (Error (js ''Invalid data URL''))
      else (case mimeMatch (arr ! 0) of
              None \<Rightarrow> Inl (Error (js ''Could not parse MIME type from data URL''))
            | Some mime \<Rightarrow>
                if mime = [] then Inl (Error (js ''Could not parse MIME type from data URL''))
                else (case atob (arr ! 1) of
                        Inl e \<Rightarrow> Inl e
                      | Inr bstr \<Rightarrow>
                          Inr \<lparr> fname = filename, ftype = blobType mime,
                                fbytes = fill_u8 (length bstr) bstr
                                           (replicate (length bstr) 0) \<rparr>)))"

text \<open>
  The data URL that \<open>handleApiResponse\<close> of \<open>src/services/geminiService.ts\<close> returns for
  an image part: the template \<open>data:${mimeType};base64,${data}\<close> over the two fields of
  the provider's \<open>inlineData\<close>, which are not checked.
\<close>

definition inlineDataUrl :: "jsstring \<Rightarrow> jsstring \<Rightarrow> jsstring" where
  "inlineDataUrl mimeType d = js ''data:'' @ mimeType @ js '';base64,'' @ d"

text \<open>\<open>err instanceof Error ? err.message : 'Terjadi kesalahan tidak dikenal.'\<close>\<close>

definition errorMessage :: "exn \<Rightarrow> jsstring" where
  "errorMessage err =
     (case err of Error m \<Rightarrow> m | NonError \<Rightarrow> js ''Terjadi kesalahan tidak dikenal.'')"

section \<open>Asynchronous handlers\<close>

text \<open>
  An \<open>async\<close> handler runs in two parts. The part before the \<open>await\<close> reads the state of
  the render it was created in and either finishes at once or issues the external call
  with the values it captured. The part after the \<open>await\<close> runs when the call has settled,
  on the state of that later moment: \<open>setImages\<close> with an updater function and the other
  setters act on the current state, not on the captured one.
\<close>

datatype 'req dispatch = Done App | Await 'req App

text \<open>\<open>handleGenerate\<close>, up to the call of \<open>generateEditedImage\<close>.\<close>

definition handleGenerate_dispatch :: "App \<Rightarrow> (File \<times> jsstring \<times> point) dispatch" where
  "handleGenerate_dispatch s =
     (if currentImage s = None \<or> \<not> truthy (activeImageId s)
      then Done (s\<lparr> error := Some NoImageLoaded \<rparr>)
      else if trim (prompt s) = []
      then Done (s\<lparr> error := Some NoPrompt \<rparr>)
      else if editHotspot s = None
      then Done (s\<lparr> error := Some NoHotspot \<rparr>)
      else Await (the (currentImage s), prompt s, the (editHotspot s))
             (s\<lparr> isLoading := True, loadingMessage := AIWorking, error := None \<rparr>))"

text \<open>
  \<open>handleGenerate\<close>, from the settled call on: the \<open>try\<close> block, its \<open>catch\<close> and its
  \<open>finally\<close>. \<open>now\<close> is the rendering of \<open>Date.now()\<close> in the file name.
\<close>

definition handleGenerate_settle :: "atob_fn \<Rightarrow> jsstring \<Rightarrow> jsstring settled \<Rightarrow> App \<Rightarrow> App" where
  "handleGenerate_settle atob now outcome s =
     (case (case outcome of
              Rejected e \<Rightarrow> Inl e
            | Fulfilled editedImageUrl \<Rightarrow>
                dataURLtoFile atob editedImageUrl (js ''edited-'' @ now @ js ''.png'')) of
        Inr newImageFile \<Rightarrow>
          s\<lparr> previewImage := Some newImageFile, editHotspot := None,
             displayHotspot := None, isLoading := False \<rparr>
      | Inl err \<Rightarrow>
          s\<lparr> error := Some (GenerateFailed (errorMessage err)), isLoading := False \<rparr>)"

text \<open>The whole handler when nothing else happens while the call is outstanding.\<close>

definition handleGenerate ::
  "atob_fn \<Rightarrow> jsstring \<Rightarrow> (File \<Rightarrow> jsstring \<Rightarrow> point \<Rightarrow> jsstring settled) \<Rightarrow> App \<Rightarrow> App" where
  "handleGenerate atob now generateEditedImage s =
     (case handleGenerate_dispatch s of
        Done s' \<Rightarrow> s'
      | Await req s' \<Rightarrow>
          (case req of (file, p, hotspot) \<Rightarrow>
             handleGenerate_settle atob now (generateEditedImage file p hotspot) s'))"

text \<open>
  \<open>handleBatchOperation\<close>, up to the external calls: the targets are the images whose
  identity is selected, and their number picks the path.
\<close>

datatype batch_request = Single ImageState | Multi "ImageState list"

definition handleBatchOperation_dispatch :: "jsstring \<Rightarrow> App \<Rightarrow> batch_request dispatch" where
  "handleBatchOperation_dispatch operationName s =
     (let targets = filter (\<lambda>img. id_image img \<in> selectedImageIds s) (images s) in
      if length targets = 0
      then Done (s\<lparr> error := Some (SelectAtLeastOne operationName) \<rparr>)
      else let s1 = s\<lparr> isLoading := True, loadingMessage := AIWorking, error := None \<rparr>
           in if length targets = 1 then Await (Single (targets ! 0)) s1
              else Await (Multi targets) s1)"

text \<open>The single-target path from the settled call on.\<close>

definition handleBatchOperation_single ::
  "atob_fn \<Rightarrow> jsstring \<Rightarrow> ImageState \<Rightarrow> jsstring settled \<Rightarrow> App \<Rightarrow> App" where
  "handleBatchOperation_single atob operationName target outcome s =
     (case (case outcome of
              Rejected e \<Rightarrow> Inl e
            | Fulfilled resultUrl \<Rightarrow>
                dataURLtoFile atob resultUrl (operationName @ js ''-'' @ name target)) of
        Inr newImageFile \<Rightarrow> s\<lparr> previewImage := Some newImageFile, isLoading := False \<rparr>
      | Inl err \<Rightarrow>
          s\<lparr> error := Some (ApplyFailed operationName (errorMessage err)),
             isLoading := False \<rparr>)"

text \<open>
  The \<open>results.forEach\<close> loop of the multi-target path. \<open>newImageFiles\<close> is a \<open>Map\<close>,
  kept as an association list in insertion order; \<open>failedEdits\<close> is the array of the
  names of the rejected targets. \<open>dataURLtoFile\<close> is called outside any \<open>try\<close>, so what it
  throws ends the loop and the handler.
\<close>

fun collectResults ::
  "atob_fn \<Rightarrow> jsstring \<Rightarrow> (ImageState \<times> jsstring settled) list \<Rightarrow>
   (jsstring \<times> File) list \<times> jsstring list \<Rightarrow> exn + (jsstring \<times> File) list \<times> jsstring list" where
  "collectResults atob operationName [] acc = Inr acc"
| "collectResults atob operationName ((targetImage, Fulfilled v) # rest) (newImageFiles, failedEdits) =
     (case dataURLtoFile atob v (operationName @ js ''-'' @ name targetImage) of
        Inl e \<Rightarrow> Inl e
      | Inr newImageFile \<Rightarrow>
          collectResults atob operationName rest
            (AList.update (id_image targetImage) newImageFile newImageFiles, failedEdits))"
| "collectResults atob operationName ((targetImage, Rejected r) # rest) (newImageFiles, failedEdits) =
     collectResults atob operationName rest (newImageFiles, failedEdits @ [name targetImage])"

text \<open>
  The calls of state setters that the multi-target path makes after the loop, in order.
  \<open>setImages\<close> receives an updater function, which React applies to the images of the
  moment.
\<close>

datatype setter =
    is_SetImages: SetImages "ImageState list \<Rightarrow> ImageState list"
  | SetError "app_error option"
  | SetIsLoading bool

fun run_setter :: "setter \<Rightarrow> App \<Rightarrow> App" where
  "run_setter (SetImages updater) s = s\<lparr> images := updater (images s) \<rparr>"
| "run_setter (SetError e) s = s\<lparr> error := e \<rparr>"
| "run_setter (SetIsLoading b) s = s\<lparr> isLoading := b \<rparr>"

fun run_setters :: "setter list \<Rightarrow> App \<Rightarrow> App" where
  "run_setters [] s = s"
| "run_setters (c # cs) s = run_setters cs (run_setter c s)"

text \<open>The updater handed to \<open>setImages\<close> by the multi-target path.\<close>

definition commitBatch :: "(jsstring \<times> File) list \<Rightarrow> ImageState list \<Rightarrow> ImageState list" where
  "commitBatch newImageFiles currentImages =
     map (\<lambda>img. case map_of newImageFiles (id_image img) of
                  Some newImageFile \<Rightarrow> pushHistory img newImageFile
                | None \<Rightarrow> img) currentImages"

text \<open>
  The multi-target path from the settled calls on. \<open>results\<close> has one outcome for each
  target, in the order of the targets. \<open>Inl\<close> is the exception the handler ends with; no
  setter has run by then.
\<close>

definition handleBatchOperation_multi_calls ::
  "atob_fn \<Rightarrow> jsstring \<Rightarrow> ImageState list \<Rightarrow> jsstring settled list \<Rightarrow> exn + setter list" where
  "handleBatchOperation_multi_calls atob operationName targets results =
     (case collectResults atob operationName (zip targets results) ([], []) of
        Inl e \<Rightarrow> Inl e
      | Inr (newImageFiles, failedEdits) \<Rightarrow>
          Inr ((if length newImageFiles > 0 then [SetImages (commitBatch newImageFiles)] else [])
               @ (if length failedEdits > 0
                  then [SetError (Some (BatchFailed operationName (length failedEdits)
                                          failedEdits))]
                  else [])
               @ [SetIsLoading False]))"

definition handleBatchOperation_multi ::
  "atob_fn \<Rightarrow> jsstring \<Rightarrow> ImageState list \<Rightarrow> jsstring settled list \<Rightarrow> App \<Rightarrow> exn + App" where
  "handleBatchOperation_multi atob operationName targets results s =
     (case handleBatchOperation_multi_calls atob operationName targets results of
        Inl e \<Rightarrow> Inl e
      | Inr calls \<Rightarrow> Inr (run_setters calls s))"

text \<open>
  The state the component is left in when the multi-target path has ended: the setters
  it called, applied to the state of that moment; none if it ended with an exception.
\<close>

definition handleBatchOperation_multi_state ::
  "atob_fn \<Rightarrow> jsstring \<Rightarrow> ImageState list \<Rightarrow> jsstring settled list \<Rightarrow> App \<Rightarrow> App" where
  "handleBatchOperation_multi_state atob operationName targets results s =
     (case handleBatchOperation_multi_calls atob operationName targets results of
        Inl e \<Rightarrow> s
      | Inr calls \<Rightarrow> run_setters calls s)"

text \<open>
  The whole handler when nothing else happens while the calls are outstanding.
  \<open>operation\<close> gives the settled outcome of the external call; it receives
  \<open>target.history[target.historyIndex]\<close>.
\<close>

definition handleBatchOperation ::
  "atob_fn \<Rightarrow> (File option \<Rightarrow> jsstring \<Rightarrow> jsstring settled) \<Rightarrow> jsstring \<Rightarrow> jsstring \<Rightarrow>
   App \<Rightarrow> exn + App" where
  "handleBatchOperation atob operation p operationName s =
     (case handleBatchOperation_dispatch operationName s of
        Done s' \<Rightarrow> Inr s'
      | Await (Single target) s' \<Rightarrow>
          Inr (handleBatchOperation_single atob operationName target
                 (operation (js_index (history target) (historyIndex target)) p) s')
      | Await (Multi targets) s' \<Rightarrow>
          handleBatchOperation_multi atob operationName targets
            (map (\<lambda>target. operation (js_index (history target) (historyIndex target)) p)
               targets) s')"

section \<open>Preview\<close>

definition handleAcceptPreview :: "App \<Rightarrow> App" where
  "handleAcceptPreview s =
     (if previewImage s \<noteq> None \<and> truthy (activeImageId s)
      then addImageToHistory (the (previewImage s)) (the (activeImageId s)) s
      else s)\<lparr> previewImage := None \<rparr>"

definition handleCancelPreview :: "App \<Rightarrow> App" where
  "handleCancelPreview s = s\<lparr> previewImage := None \<rparr>"

section \<open>Sequences of history operations\<close>

datatype hist_op = Append File jsstring | Undo | Redo | Reset | Select jsstring

fun apply_op :: "hist_op \<Rightarrow> App \<Rightarrow> App" where
  "apply_op (Append f i) s = addImageToHistory f i s"
| "apply_op Undo s = handleUndo s"
| "apply_op Redo s = handleRedo s"
| "apply_op Reset s = handleReset s"
| "apply_op (Select i) s = handleSelectImage i s"

fun run_ops :: "hist_op list \<Rightarrow> App \<Rightarrow> App" where
  "run_ops [] s = s"
| "run_ops (x # xs) s = run_ops xs (apply_op x s)"

section \<open>Predicates used in the statements\<close>

text \<open>The invariant of a History Stack: it has an entry, and the cursor points at one.\<close>

definition history_ok :: "ImageState \<Rightarrow> bool" where
  "history_ok img \<longleftrightarrow>
     history img \<noteq> [] \<and> 0 \<le> historyIndex img \<and>
     historyIndex img \<le> int (length (history img)) - 1"

text \<open>
  Entries that carry the same identity are addressed together by every handler, so they
  have the same cursor and the same number of snapshots. With distinct identities this
  says nothing.
\<close>

definition in_step :: "ImageState list \<Rightarrow> bool" where
  "in_step imgs \<longleftrightarrow>
     (\<forall>a\<in>set imgs. \<forall>b\<in>set imgs. id_image a = id_image b \<longrightarrow>
        historyIndex a = historyIndex b \<and> length (history a) = length (history b))"

definition collection_ok :: "ImageState list \<Rightarrow> bool" where
  "collection_ok imgs \<longleftrightarrow> (\<forall>img\<in>set imgs. history_ok img) \<and> in_step imgs"

text \<open>Active identity and selection refer to present entries only.\<close>

definition references_ok :: "App \<Rightarrow> bool" where
  "references_ok s \<longleftrightarrow>
     (case activeImageId s of None \<Rightarrow> True | Some a \<Rightarrow> a \<in> id_image ` set (images s)) \<and>
     selectedImageIds s \<subseteq> id_image ` set (images s)"

fun is_rejected :: "'a settled \<Rightarrow> bool" where
  "is_rejected (Rejected r) = True"
| "is_rejected (Fulfilled v) = False"

section \<open>Sample data\<close>

definition sampleFile :: "jsstring \<Rightarrow> File" where
  "sampleFile n = \<lparr> fname = n, ftype = js ''image/png'', fbytes = [] \<rparr>"

definition sampleImage :: "jsstring \<Rightarrow> File list \<Rightarrow> int \<Rightarrow> ImageState" where
  "sampleImage i h c =
     \<lparr> id_image = i, name = i, originalFile = sampleFile (js ''orig''), history = h,
       historyIndex = c \<rparr>"

definition sampleState :: "ImageState list \<Rightarrow> jsstring option \<Rightarrow> jsstring set \<Rightarrow> App" where
  "sampleState imgs a sel = initialState\<lparr> images := imgs, activeImageId := a,
     selectedImageIds := sel \<rparr>"

text \<open>A stand-in for \<open>atob\<close> that accepts every non-empty string and returns it.\<close>

definition sampleAtob :: atob_fn where
  "sampleAtob b = (if b = [] then Inl (Error (js ''InvalidCharacterError'')) else Inr b)"

definition fileA :: File where "fileA = sampleFile (js ''A'')"
definition fileB :: File where "fileB = sampleFile (js ''B'')"
definition fileC :: File where "fileC = sampleFile (js ''C'')"
definition fileD :: File where "fileD = sampleFile (js ''D'')"

text \<open>One image with entries A, B, C and the cursor on C.\<close>

definition sampleABC :: App where
  "sampleABC = sampleState [sampleImage (js ''x'') [fileA, fileB, fileC] 2]
     (Some (js ''x'')) {js ''x''}"

text \<open>Two images; the first one is active and selected.\<close>

definition sampleXY :: App where
  "sampleXY = sampleState [sampleImage (js ''x'') [fileA, fileB] 0,
     sampleImage (js ''y'') [fileA, fileB] 1] (Some (js ''x'')) {js ''x''}"

text \<open>The state after the first upload of one file, and a run of history operations.\<close>

definition sampleUploaded :: App where
  "sampleUploaded = handleImageUploads [(fileA, js ''1'', js ''2'')] initialState"

definition sampleOps :: "hist_op list" where
  "sampleOps = [Append fileD (js ''A-1-2''), Undo, Undo, Redo, Redo]"

text \<open>
  Two images, the first one active, with an instruction and a focus point: a retouch
  can be dispatched. \<open>sampleLoading\<close> is the state while the call is outstanding.
\<close>

definition sampleReady :: App where
  "sampleReady = sampleXY\<lparr> prompt := js ''sky'', editHotspot := Some (1, 2) \<rparr>"

definition sampleLoading :: App where
  "sampleLoading = sampleReady\<lparr> isLoading := True, loadingMessage := AIWorking,
     error := None \<rparr>"

definition sampleUrl :: jsstring where
  "sampleUrl = js ''data:image/png;base64,QUJD''"

definition sampleEdited :: File where
  "sampleEdited = \<lparr> fname = js ''edited-0.png'', ftype = js ''image/png'',
     fbytes = [0x51, 0x55, 0x4A, 0x44] \<rparr>"

text \<open>Two files uploaded together into the empty collection.\<close>

definition sampleUpload2 :: App where
  "sampleUpload2 =
     handleImageUploads [(fileA, js ''1'', js ''2''), (fileB, js ''1'', js ''3'')] initialState"

text \<open>Three images, all selected, and the settled calls of a batch: the second rejects.\<close>

definition sampleXYZ :: App where
  "sampleXYZ = sampleState [sampleImage (js ''x'') [fileA, fileB] 0,
     sampleImage (js ''y'') [fileA, fileB] 1, sampleImage (js ''z'') [fileC] 0]
     (Some (js ''x'')) {js ''x'', js ''y'', js ''z''}"

definition sampleResults :: "jsstring settled list" where
  "sampleResults = [Fulfilled sampleUrl, Rejected (Error (js ''boom'')), Fulfilled sampleUrl]"

text \<open>States in which a retouch is refused, one for each precondition.\<close>

definition sampleNoImage :: App where
  "sampleNoImage = initialState\<lparr> prompt := js ''sky'', editHotspot := Some (1, 2) \<rparr>"

definition sampleBlankPrompt :: App where
  "sampleBlankPrompt = sampleReady\<lparr> prompt := js ''  '' \<rparr>"

definition sampleNoHotspot :: App where
  "sampleNoHotspot = sampleReady\<lparr> editHotspot := None \<rparr>"

text \<open>A pending preview while no image is active.\<close>

definition sampleOrphan :: App where
  "sampleOrphan = sampleXY\<lparr> activeImageId := None, previewImage := Some fileD \<rparr>"

text \<open>
  A retouch is dispatched on the first image, the second image is made active while the
  call is outstanding, the call settles, and the preview is accepted.
\<close>

definition sampleSwitched :: App where
  "sampleSwitched =
     handleAcceptPreview
       (handleGenerate_settle sampleAtob (js ''0'') (Fulfilled sampleUrl)
          (handleSelectImage (js ''y'') sampleLoading))"

text \<open>
  The first image is the only selected one, a filter was dispatched on it, and the call
  is outstanding; the file that the sample data URL decodes to on that path.
\<close>

definition sampleFiltered :: File where
  "sampleFiltered = \<lparr> fname = js ''filter-x'', ftype = js ''image/png'',
     fbytes = [0x51, 0x55, 0x4A, 0x44] \<rparr>"

definition sampleBusy :: App where
  "sampleBusy = sampleXY\<lparr> isLoading := True, loadingMessage := AIWorking, error := None \<rparr>"

text \<open>
  All three images are selected, a filter was dispatched on them, and the calls are
  outstanding; the state after the calls have settled with \<open>sampleResults\<close>.
\<close>

definition sampleBusyXYZ :: App where
  "sampleBusyXYZ = sampleXYZ\<lparr> isLoading := True, loadingMessage := AIWorking, error := None \<rparr>"

definition sampleCommitted :: App where
  "sampleCommitted = sampleBusyXYZ\<lparr>
     images := [sampleImage (js ''x'') [fileA, sampleFiltered] 1,
                sampleImage (js ''y'') [fileA, fileB] 1,
                sampleImage (js ''z'') [fileC, sampleFiltered\<lparr> fname := js ''filter-z'' \<rparr>] 1],
     error := Some (BatchFailed (js ''filter'') 1 [js ''y'']),
     isLoading := False \<rparr>"

text \<open>
  A batch in which the provider answers the third call with an image part whose
  \<open>mimeType\<close> is the empty string: the call is fulfilled with a data URL that
  \<open>dataURLtoFile\<close> refuses. \<open>sampleBadOperation\<close> is the external call with these
  outcomes: the first image's current file is A, the second one's is B, the third one's
  is C.
\<close>

definition sampleBadUrl :: jsstring where
  "sampleBadUrl = inlineDataUrl [] (js ''QUJD'')"

definition sampleBadResults :: "jsstring settled list" where
  "sampleBadResults =
     [Fulfilled sampleUrl, Rejected (Error (js ''boom'')), Fulfilled sampleBadUrl]"

definition sampleBadOperation :: "File option \<Rightarrow> jsstring \<Rightarrow> jsstring settled" where
  "sampleBadOperation file p =
     (if file = Some fileA then Fulfilled sampleUrl
      else if file = Some fileB then Rejected (Error (js ''boom''))
      else Fulfilled sampleBadUrl)"

section \<open>The History Stack\<close>

lemma js_slice0_take: "0 \<le> c \<Longrightarrow> js_slice0 xs (c + 1) = take (nat c + 1) xs"
  by (auto simp: js_slice0_def Let_def min_def nat_add_distrib)

lemma pushHistory_history:
  "0 \<le> historyIndex img \<Longrightarrow>
   history (pushHistory img f) = take (nat (historyIndex img) + 1) (history img) @ [f]"
  by (simp add: pushHistory_def Let_def js_slice0_take)

lemma pushHistory_index:
  "historyIndex (pushHistory img f) = int (length (history (pushHistory img f))) - 1"
  by (simp add: pushHistory_def Let_def)

lemma pushHistory_fields:
  "id_image (pushHistory img f) = id_image img"
  "name (pushHistory img f) = name img"
  "originalFile (pushHistory img f) = originalFile img"
  by (simp_all add: pushHistory_def Let_def)

lemma pushHistory_ok: "history_ok (pushHistory img f)"
  by (simp add: pushHistory_def Let_def history_ok_def)

lemma images_addImageToHistory:
  "images (addImageToHistory f X s) =
     map (\<lambda>img. if id_image img = X then pushHistory img f else img) (images s)"
  by (simp add: addImageToHistory_def Let_def)

text \<open>
  Claim C2. Appending a snapshot to the image with identity \<open>X\<close>, whose cursor \<open>c\<close> is
  valid, keeps the entries up to and including index \<open>c\<close>, discards the later ones, puts
  the new snapshot last and moves the cursor to the new last index, which is \<open>c + 1\<close>.
  The witness is the example of the specification: entries A, B, C with the cursor on C,
  one undo, then the append of D, which gives A, B, D with the cursor on D.
\<close>

theorem addImageToHistory_branches:
  assumes "i < length (images s)" and "id_image (images s ! i) = X"
    and "0 \<le> historyIndex (images s ! i)"
    and "historyIndex (images s ! i) \<le> int (length (history (images s ! i))) - 1"
  shows "history (images (addImageToHistory D X s) ! i) =
           take (nat (historyIndex (images s ! i)) + 1) (history (images s ! i)) @ [D]
       \<and> historyIndex (images (addImageToHistory D X s) ! i) =
           int (length (history (images (addImageToHistory D X s) ! i))) - 1
       \<and> historyIndex (images (addImageToHistory D X s) ! i) = historyIndex (images s ! i) + 1"
  using assms
  by (auto simp: images_addImageToHistory pushHistory_history pushHistory_index min_def)

theorem addImageToHistory_branches_witness:
  "0 < length (images (handleUndo sampleABC))
   \<and> id_image (images (handleUndo sampleABC) ! 0) = js ''x''
   \<and> history (images (handleUndo sampleABC) ! 0) = [fileA, fileB, fileC]
   \<and> historyIndex (images (handleUndo sampleABC) ! 0) = 1
   \<and> history (images (addImageToHistory fileD (js ''x'') (handleUndo sampleABC)) ! 0) =
       [fileA, fileB, fileD]
   \<and> historyIndex (images (addImageToHistory fileD (js ''x'') (handleUndo sampleABC)) ! 0) = 2"
proof -
  have img: "images (handleUndo sampleABC) = [sampleImage (js ''x'') [fileA, fileB, fileC] 1]"
    by (simp add: sampleABC_def handleUndo_def canUndo_def activeImageState_def
        sampleState_def sampleImage_def initialState_def js_def)
  have h: "0 < length (images (handleUndo sampleABC))"
    "id_image (images (handleUndo sampleABC) ! 0) = js ''x''"
    "0 \<le> historyIndex (images (handleUndo sampleABC) ! 0)"
    "historyIndex (images (handleUndo sampleABC) ! 0)
       \<le> int (length (history (images (handleUndo sampleABC) ! 0))) - 1"
    by (simp_all add: img sampleImage_def)
  from addImageToHistory_branches [OF h, of fileD] h show ?thesis
    by (simp add: img sampleImage_def)
qed

lemma images_handleUndo:
  "images (handleUndo s) =
     (if canUndo s \<and> truthy (activeImageId s)
      then map (\<lambda>img. if Some (id_image img) = activeImageId s
                      then img\<lparr> historyIndex := historyIndex img - 1 \<rparr> else img) (images s)
      else images s)"
  by (simp add: handleUndo_def)

lemma images_handleRedo:
  "images (handleRedo s) =
     (if canRedo s \<and> truthy (activeImageId s)
      then map (\<lambda>img. if Some (id_image img) = activeImageId s
                      then img\<lparr> historyIndex := historyIndex img + 1 \<rparr> else img) (images s)
      else images s)"
  by (simp add: handleRedo_def)

lemma images_handleReset:
  "images (handleReset s) =
     map (\<lambda>img. if Some (id_image img) = activeImageId s
                then img\<lparr> history := [originalFile img], historyIndex := 0 \<rparr> else img)
       (images s)"
  by (simp add: handleReset_def)

lemma images_handleSelectImage: "images (handleSelectImage i s) = images s"
  by (simp add: handleSelectImage_def)

text \<open>
  Claim C10. An append addressed to \<open>X\<close>, and an undo, a redo or a reset while \<open>X\<close> is the
  active image, leave every entry whose identity is not \<open>X\<close> as it was: the whole record
  (entries, cursor, original snapshot, identity and name) is unchanged, and so is the
  number of entries of the collection.
\<close>

theorem history_ops_frame:
  assumes "j < length (images s)" and "id_image (images s ! j) \<noteq> X"
  shows "images (addImageToHistory f X s) ! j = images s ! j
       \<and> (activeImageId s = Some X \<longrightarrow>
            images (handleUndo s) ! j = images s ! j
          \<and> images (handleRedo s) ! j = images s ! j
          \<and> images (handleReset s) ! j = images s ! j)
       \<and> length (images (addImageToHistory f X s)) = length (images s)
       \<and> length (images (handleUndo s)) = length (images s)
       \<and> length (images (handleRedo s)) = length (images s)
       \<and> length (images (handleReset s)) = length (images s)"
  using assms
  by (simp add: images_addImageToHistory images_handleUndo images_handleRedo
      images_handleReset)

theorem history_ops_frame_witness:
  "(1::nat) < length (images sampleXY) \<and> id_image (images sampleXY ! 1) \<noteq> js ''x''
   \<and> activeImageId sampleXY = Some (js ''x'')
   \<and> images (addImageToHistory fileD (js ''x'') sampleXY) ! 1 = images sampleXY ! 1
   \<and> images (handleUndo sampleXY) ! 1 = images sampleXY ! 1
   \<and> images (handleRedo sampleXY) ! 1 = images sampleXY ! 1
   \<and> images (handleReset sampleXY) ! 1 = images sampleXY ! 1
   \<and> images (handleRedo sampleXY) ! 0 \<noteq> images sampleXY ! 0"
proof -
  have h: "1 < length (images sampleXY)" "id_image (images sampleXY ! 1) \<noteq> js ''x''"
    by (simp_all add: sampleXY_def sampleState_def sampleImage_def js_def)
  have a: "activeImageId sampleXY = Some (js ''x'')"
    by (simp add: sampleXY_def sampleState_def)
  have r: "images (handleRedo sampleXY) ! 0 \<noteq> images sampleXY ! 0"
    by (simp add: sampleXY_def handleRedo_def canRedo_def activeImageState_def sampleState_def
        sampleImage_def initialState_def js_def)
  from history_ops_frame [OF h, of fileD] h a r show ?thesis
    by simp
qed

lemma js_find_Some: "js_find p xs = Some a \<Longrightarrow> a \<in> set xs \<and> p a"
  by (induction xs) (auto split: if_splits)

lemma js_find_None: "js_find p xs = None \<Longrightarrow> x \<in> set xs \<Longrightarrow> \<not> p x"
  by (induction xs) (auto split: if_splits)

lemma canUndo_active:
  assumes "in_step (images s)" and "canUndo s" and "img \<in> set (images s)"
    and "Some (id_image img) = activeImageId s"
  shows "0 < historyIndex img"
proof -
  from assms(2) obtain a where a: "activeImageState s = Some a" "0 < historyIndex a"
    by (auto simp: canUndo_def split: option.splits)
  then have "a \<in> set (images s)" "Some (id_image a) = activeImageId s"
    using js_find_Some [of _ "images s" a] by (auto simp: activeImageState_def)
  with assms a show ?thesis
    by (metis in_step_def option.inject)
qed

lemma canRedo_active:
  assumes "in_step (images s)" and "canRedo s" and "img \<in> set (images s)"
    and "Some (id_image img) = activeImageId s"
  shows "historyIndex img < int (length (history img)) - 1"
proof -
  from assms(2) obtain a where a: "activeImageState s = Some a"
      "historyIndex a < int (length (history a)) - 1"
    by (auto simp: canRedo_def split: option.splits)
  then have "a \<in> set (images s)" "Some (id_image a) = activeImageId s"
    using js_find_Some [of _ "images s" a] by (auto simp: activeImageState_def)
  with assms a show ?thesis
    by (metis in_step_def option.inject)
qed

lemma in_step_map:
  assumes "in_step imgs"
    and ids: "\<And>a. id_image (g a) = id_image a"
    and same: "\<And>a b. a \<in> set imgs \<Longrightarrow> b \<in> set imgs \<Longrightarrow> id_image a = id_image b \<Longrightarrow>
        historyIndex a = historyIndex b \<Longrightarrow> length (history a) = length (history b) \<Longrightarrow>
        historyIndex (g a) = historyIndex (g b) \<and>
        length (history (g a)) = length (history (g b))"
  shows "in_step (map g imgs)"
  unfolding in_step_def
proof (intro ballI impI)
  fix x y
  assume "x \<in> set (map g imgs)" and "y \<in> set (map g imgs)" and xy: "id_image x = id_image y"
  then obtain a b where a: "a \<in> set imgs" "x = g a" and b: "b \<in> set imgs" "y = g b"
    by auto
  from xy a b ids have "id_image a = id_image b" by simp
  moreover from this a b assms(1)
  have "historyIndex a = historyIndex b \<and> length (history a) = length (history b)"
    unfolding in_step_def by blast
  ultimately show "historyIndex x = historyIndex y \<and> length (history x) = length (history y)"
    using same [of a b] a b by simp
qed

lemma all_ok_map:
  assumes "\<And>a. a \<in> set imgs \<Longrightarrow> history_ok (g a)"
  shows "\<forall>img\<in>set (map g imgs). history_ok img"
  using assms by auto

lemma collection_ok_addImageToHistory:
  assumes "collection_ok (images s)"
  shows "collection_ok (images (addImageToHistory f X s))"
  unfolding collection_ok_def images_addImageToHistory
proof
  show "\<forall>img\<in>set (map (\<lambda>img. if id_image img = X then pushHistory img f else img) (images s)).
          history_ok img"
    using assms by (intro all_ok_map) (simp add: collection_ok_def pushHistory_ok)
  show "in_step (map (\<lambda>img. if id_image img = X then pushHistory img f else img) (images s))"
  proof (rule in_step_map)
    show "in_step (images s)" using assms by (simp add: collection_ok_def)
  qed (simp_all add: pushHistory_def Let_def js_slice0_def)
qed

lemma collection_ok_handleUndo:
  assumes "collection_ok (images s)"
  shows "collection_ok (images (handleUndo s))"
proof (cases "canUndo s \<and> truthy (activeImageId s)")
  case False
  then have "images (handleUndo s) = images s" by (auto simp: images_handleUndo)
  then show ?thesis using assms by simp
next
  case True
  let ?g = "\<lambda>img. if Some (id_image img) = activeImageId s
                   then img\<lparr> historyIndex := historyIndex img - 1 \<rparr> else img"
  have step: "in_step (images s)" and ok: "\<And>a. a \<in> set (images s) \<Longrightarrow> history_ok a"
    using assms by (simp_all add: collection_ok_def)
  have eq: "images (handleUndo s) = map ?g (images s)"
    using True by (simp add: images_handleUndo)
  have "history_ok (?g a)" if "a \<in> set (images s)" for a
  proof (cases "Some (id_image a) = activeImageId s")
    case True
    with canUndo_active [OF step _ that] \<open>canUndo s \<and> truthy (activeImageId s)\<close>
    have "0 < historyIndex a" by simp
    with ok [OF that] True show ?thesis by (simp add: history_ok_def)
  next
    case False
    with ok [OF that] show ?thesis by simp
  qed
  then have "\<forall>img\<in>set (map ?g (images s)). history_ok img" by (rule all_ok_map)
  moreover have "in_step (map ?g (images s))"
    by (rule in_step_map [OF step]) simp_all
  ultimately show ?thesis by (simp add: collection_ok_def eq)
qed

lemma collection_ok_handleRedo:
  assumes "collection_ok (images s)"
  shows "collection_ok (images (handleRedo s))"
proof (cases "canRedo s \<and> truthy (activeImageId s)")
  case False
  then have "images (handleRedo s) = images s" by (auto simp: images_handleRedo)
  then show ?thesis using assms by simp
next
  case True
  let ?g = "\<lambda>img. if Some (id_image img) = activeImageId s
                   then img\<lparr> historyIndex := historyIndex img + 1 \<rparr> else img"
  have step: "in_step (images s)" and ok: "\<And>a. a \<in> set (images s) \<Longrightarrow> history_ok a"
    using assms by (simp_all add: collection_ok_def)
  have eq: "images (handleRedo s) = map ?g (images s)"
    using True by (simp add: images_handleRedo)
  have "history_ok (?g a)" if "a \<in> set (images s)" for a
  proof (cases "Some (id_image a) = activeImageId s")
    case True
    with canRedo_active [OF step _ that] \<open>canRedo s \<and> truthy (activeImageId s)\<close>
    have "historyIndex a < int (length (history a)) - 1" by simp
    with ok [OF that] True show ?thesis by (simp add: history_ok_def)
  next
    case False
    with ok [OF that] show ?thesis by simp
  qed
  then have "\<forall>img\<in>set (map ?g (images s)). history_ok img" by (rule all_ok_map)
  moreover have "in_step (map ?g (images s))"
    by (rule in_step_map [OF step]) simp_all
  ultimately show ?thesis by (simp add: collection_ok_def eq)
qed

lemma collection_ok_handleReset:
  assumes "collection_ok (images s)"
  shows "collection_ok (images (handleReset s))"
proof -
  let ?g = "\<lambda>img. if Some (id_image img) = activeImageId s
                   then img\<lparr> history := [originalFile img], historyIndex := 0 \<rparr> else img"
  have step: "in_step (images s)" and ok: "\<And>a. a \<in> set (images s) \<Longrightarrow> history_ok a"
    using assms by (simp_all add: collection_ok_def)
  have "history_ok (?g a)" if "a \<in> set (images s)" for a
    using ok [OF that] by (simp add: history_ok_def)
  then have "\<forall>img\<in>set (map ?g (images s)). history_ok img" by (rule all_ok_map)
  moreover have "in_step (map ?g (images s))"
    by (rule in_step_map [OF step]) simp_all
  ultimately show ?thesis by (simp add: collection_ok_def images_handleReset)
qed

lemma collection_ok_apply_op:
  "collection_ok (images s) \<Longrightarrow> collection_ok (images (apply_op x s))"
  by (cases x)
     (simp_all add: collection_ok_addImageToHistory collection_ok_handleUndo
        collection_ok_handleRedo collection_ok_handleReset images_handleSelectImage)

lemma collection_ok_run_ops:
  "collection_ok (images s) \<Longrightarrow> collection_ok (images (run_ops ops s))"
  by (induction ops arbitrary: s) (simp_all add: collection_ok_apply_op)

lemma images_handleImageUploads:
  "images (handleImageUploads files s) = images s @ map newImage files"
  by (simp add: handleImageUploads_def Let_def)

lemma newImage_fresh:
  "history (newImage u) = [originalFile (newImage u)] \<and> historyIndex (newImage u) = 0"
  by (cases u) (simp add: newImage_def)

lemma collection_ok_fresh: "collection_ok (map newImage files)"
  unfolding collection_ok_def
proof
  show "\<forall>img\<in>set (map newImage files). history_ok img"
    by (intro all_ok_map) (simp add: history_ok_def newImage_fresh)
  show "in_step (map newImage files)"
    unfolding in_step_def by (auto simp: newImage_fresh)
qed

lemma collection_ok_distinct:
  assumes "distinct (map id_image imgs)" and "\<forall>img\<in>set imgs. history_ok img"
  shows "collection_ok imgs"
proof -
  have "a = b" if "a \<in> set imgs" "b \<in> set imgs" "id_image a = id_image b" for a b
    using assms(1) that by (meson distinct_map inj_onD)
  then have "in_step imgs" unfolding in_step_def by blast
  with assms(2) show ?thesis by (simp add: collection_ok_def)
qed

lemma handleUndo_noop:
  "activeImageState s = Some a \<Longrightarrow> historyIndex a = 0 \<Longrightarrow> handleUndo s = s"
  by (simp add: handleUndo_def canUndo_def)

lemma handleRedo_noop:
  "activeImageState s = Some a \<Longrightarrow> historyIndex a = int (length (history a)) - 1
   \<Longrightarrow> handleRedo s = s"
  by (simp add: handleRedo_def canRedo_def)

lemma length_images_apply_op: "length (images (apply_op x s)) = length (images s)"
  by (cases x)
     (simp_all add: images_addImageToHistory images_handleUndo images_handleRedo
        images_handleReset images_handleSelectImage)

lemma length_images_run_ops: "length (images (run_ops ops s)) = length (images s)"
  by (induction ops arbitrary: s) (simp_all add: length_images_apply_op)

text \<open>
  Claim C7. After the first upload, whatever appends, undos, redos (and resets and
  switches of the active image) follow, every image has at least one entry and a cursor
  between 0 and the last index. The same holds from any collection with distinct
  identities in which every image has an entry and a cursor in that range. In every
  state, undo changes nothing when the cursor of the active image is 0, and redo changes
  nothing when it is on the last entry.
\<close>

theorem history_invariant:
  "(\<forall>img\<in>set (images (run_ops ops (handleImageUploads files initialState))).
      history img \<noteq> [] \<and> 0 \<le> historyIndex img \<and>
      historyIndex img \<le> int (length (history img)) - 1)
   \<and> (\<forall>a. activeImageState s = Some a \<and> historyIndex a = 0 \<longrightarrow> handleUndo s = s)
   \<and> (\<forall>a. activeImageState s = Some a \<and> historyIndex a = int (length (history a)) - 1
          \<longrightarrow> handleRedo s = s)
   \<and> (distinct (map id_image (images s0)) \<and>
        (\<forall>img\<in>set (images s0). history img \<noteq> [] \<and> 0 \<le> historyIndex img \<and>
           historyIndex img \<le> int (length (history img)) - 1) \<longrightarrow>
        (\<forall>img\<in>set (images (run_ops ops s0)). history img \<noteq> [] \<and> 0 \<le> historyIndex img \<and>
           historyIndex img \<le> int (length (history img)) - 1))"
proof -
  have "collection_ok (images (handleImageUploads files initialState))"
    by (simp add: images_handleImageUploads initialState_def collection_ok_fresh)
  then have "collection_ok (images (run_ops ops (handleImageUploads files initialState)))"
    by (rule collection_ok_run_ops)
  then have first: "\<forall>img\<in>set (images (run_ops ops (handleImageUploads files initialState))).
      history img \<noteq> [] \<and> 0 \<le> historyIndex img \<and>
      historyIndex img \<le> int (length (history img)) - 1"
    by (simp add: collection_ok_def history_ok_def)
  have any: "\<forall>img\<in>set (images (run_ops ops s0)). history img \<noteq> [] \<and> 0 \<le> historyIndex img \<and>
           historyIndex img \<le> int (length (history img)) - 1"
    if "distinct (map id_image (images s0))"
      and "\<forall>img\<in>set (images s0). history img \<noteq> [] \<and> 0 \<le> historyIndex img \<and>
           historyIndex img \<le> int (length (history img)) - 1"
  proof -
    from that have "collection_ok (images s0)"
      by (intro collection_ok_distinct) (simp_all add: history_ok_def)
    then have "collection_ok (images (run_ops ops s0))"
      by (rule collection_ok_run_ops)
    then show ?thesis
      by (simp add: collection_ok_def history_ok_def)
  qed
  have undo: "\<forall>a. activeImageState s = Some a \<and> historyIndex a = 0 \<longrightarrow> handleUndo s = s"
    using handleUndo_noop by blast
  have redo: "\<forall>a. activeImageState s = Some a \<and> historyIndex a = int (length (history a)) - 1
      \<longrightarrow> handleRedo s = s"
    using handleRedo_noop by blast
  from any have any': "distinct (map id_image (images s0)) \<and>
        (\<forall>img\<in>set (images s0). history img \<noteq> [] \<and> 0 \<le> historyIndex img \<and>
           historyIndex img \<le> int (length (history img)) - 1) \<longrightarrow>
        (\<forall>img\<in>set (images (run_ops ops s0)). history img \<noteq> [] \<and> 0 \<le> historyIndex img \<and>
           historyIndex img \<le> int (length (history img)) - 1)"
    by (intro impI) (elim conjE)
  show ?thesis
    by (intro conjI) (fact first undo redo any')+
qed

theorem history_invariant_witness:
  "images (run_ops sampleOps sampleUploaded) =
     [\<lparr> id_image = js ''A-1-2'', name = js ''A'', originalFile = fileA,
        history = [fileA, fileD], historyIndex = 1 \<rparr>]
   \<and> activeImageState sampleUploaded = Some (images sampleUploaded ! 0)
   \<and> historyIndex (images sampleUploaded ! 0) = 0
   \<and> handleUndo sampleUploaded = sampleUploaded
   \<and> activeImageState (run_ops sampleOps sampleUploaded) =
       Some (images (run_ops sampleOps sampleUploaded) ! 0)
   \<and> handleRedo (run_ops sampleOps sampleUploaded) = run_ops sampleOps sampleUploaded
   \<and> distinct (map id_image (images sampleXY))
   \<and> 1 < length (images (run_ops sampleOps sampleXY))
   \<and> history (images (run_ops sampleOps sampleXY) ! 1) \<noteq> []
   \<and> 0 \<le> historyIndex (images (run_ops sampleOps sampleXY) ! 1)
   \<and> historyIndex (images (run_ops sampleOps sampleXY) ! 1)
       \<le> int (length (history (images (run_ops sampleOps sampleXY) ! 1))) - 1"
proof -
  have i0: "images sampleUploaded =
      [\<lparr> id_image = js ''A-1-2'', name = js ''A'', originalFile = fileA,
         history = [fileA], historyIndex = 0 \<rparr>]"
    and a0: "activeImageId sampleUploaded = Some (js ''A-1-2'')"
    by (simp_all add: sampleUploaded_def handleImageUploads_def newImage_def initialState_def
        fileA_def sampleFile_def js_def Let_def)
  have act0: "activeImageState sampleUploaded = Some (images sampleUploaded ! 0)"
    by (simp add: activeImageState_def i0 a0)
  have ifin: "images (run_ops sampleOps sampleUploaded) =
      [\<lparr> id_image = js ''A-1-2'', name = js ''A'', originalFile = fileA,
         history = [fileA, fileD], historyIndex = 1 \<rparr>]"
    and afin: "activeImageId (run_ops sampleOps sampleUploaded) = Some (js ''A-1-2'')"
    by (simp_all add: sampleOps_def sampleUploaded_def handleImageUploads_def newImage_def
        initialState_def fileA_def sampleFile_def js_def Let_def addImageToHistory_def
        pushHistory_def js_slice0_def handleUndo_def handleRedo_def canUndo_def canRedo_def
        activeImageState_def)
  have actf: "activeImageState (run_ops sampleOps sampleUploaded) =
      Some (images (run_ops sampleOps sampleUploaded) ! 0)"
    by (simp add: activeImageState_def ifin afin)
  have c0: "historyIndex (images sampleUploaded ! 0) = 0"
    and cf: "historyIndex (images (run_ops sampleOps sampleUploaded) ! 0) =
      int (length (history (images (run_ops sampleOps sampleUploaded) ! 0))) - 1"
    by (simp_all add: i0 ifin)
  note inst0 = history_invariant [of sampleOps "[(fileA, js ''1'', js ''2'')]" sampleUploaded]
  note instf = history_invariant [of sampleOps "[(fileA, js ''1'', js ''2'')]"
      "run_ops sampleOps sampleUploaded"]
  have u: "handleUndo sampleUploaded = sampleUploaded"
    using act0 c0 conjunct1 [OF conjunct2 [OF inst0]] by blast
  have r: "handleRedo (run_ops sampleOps sampleUploaded) = run_ops sampleOps sampleUploaded"
    using actf cf conjunct1 [OF conjunct2 [OF conjunct2 [OF instf]]] by blast
  have d: "distinct (map id_image (images sampleXY))"
    and v: "\<forall>img\<in>set (images sampleXY). history img \<noteq> [] \<and> 0 \<le> historyIndex img \<and>
        historyIndex img \<le> int (length (history img)) - 1"
    by (simp_all add: sampleXY_def sampleState_def sampleImage_def js_def)
  have n: "length (images (run_ops sampleOps sampleXY)) = 2"
    by (simp add: length_images_run_ops sampleXY_def sampleState_def)
  have dv: "distinct (map id_image (images sampleXY)) \<and>
      (\<forall>img\<in>set (images sampleXY). history img \<noteq> [] \<and> 0 \<le> historyIndex img \<and>
        historyIndex img \<le> int (length (history img)) - 1)"
    using d v by (rule conjI)
  have x: "\<forall>img\<in>set (images (run_ops sampleOps sampleXY)).
        history img \<noteq> [] \<and> 0 \<le> historyIndex img \<and>
        historyIndex img \<le> int (length (history img)) - 1"
    by (rule mp [OF conjunct2 [OF conjunct2 [OF conjunct2
          [OF history_invariant [of sampleOps "[]" sampleXY sampleXY]]]] dv])
  from n have lt: "1 < length (images (run_ops sampleOps sampleXY))" by simp
  then have "images (run_ops sampleOps sampleXY) ! 1 \<in> set (images (run_ops sampleOps sampleXY))"
    by (rule nth_mem)
  note at1 = bspec [OF x this]
  have y: "history (images (run_ops sampleOps sampleXY) ! 1) \<noteq> []"
    "0 \<le> historyIndex (images (run_ops sampleOps sampleXY) ! 1)"
    "historyIndex (images (run_ops sampleOps sampleXY) ! 1)
       \<le> int (length (history (images (run_ops sampleOps sampleXY) ! 1))) - 1"
    by (rule conjunct1 [OF at1], rule conjunct1 [OF conjunct2 [OF at1]],
        rule conjunct2 [OF conjunct2 [OF at1]])
  show ?thesis
    by (intro conjI) (fact ifin act0 c0 u actf r d lt y)+
qed

section \<open>Retouch preconditions\<close>

lemmas sample_defs =
  sampleXY_def sampleABC_def sampleReady_def sampleLoading_def sampleNoImage_def
  sampleBlankPrompt_def sampleNoHotspot_def sampleOrphan_def sampleState_def
  sampleImage_def initialState_def

text \<open>
  Claim C6. \<open>handleGenerate\<close> checks its preconditions before the external call, in the
  order: active image present, instruction not blank, focus point present. The first one
  that is not met decides the error that is set, whatever the later ones are; the
  handler then ends without a call and its result does not depend on the external
  function. The call is issued exactly when all three are met. The three errors are
  different from each other.
\<close>

theorem handleGenerate_preconditions:
  "(currentImage s = None \<or> \<not> truthy (activeImageId s) \<longrightarrow>
      handleGenerate_dispatch s = Done (s\<lparr> error := Some NoImageLoaded \<rparr>)
    \<and> handleGenerate atob now generateEditedImage s = s\<lparr> error := Some NoImageLoaded \<rparr>)
   \<and> (currentImage s \<noteq> None \<and> truthy (activeImageId s) \<and> trim (prompt s) = [] \<longrightarrow>
      handleGenerate_dispatch s = Done (s\<lparr> error := Some NoPrompt \<rparr>)
    \<and> handleGenerate atob now generateEditedImage s = s\<lparr> error := Some NoPrompt \<rparr>)
   \<and> (currentImage s \<noteq> None \<and> truthy (activeImageId s) \<and> trim (prompt s) \<noteq> []
        \<and> editHotspot s = None \<longrightarrow>
      handleGenerate_dispatch s = Done (s\<lparr> error := Some NoHotspot \<rparr>)
    \<and> handleGenerate atob now generateEditedImage s = s\<lparr> error := Some NoHotspot \<rparr>)
   \<and> ((\<exists>req s'. handleGenerate_dispatch s = Await req s') \<longleftrightarrow>
        currentImage s \<noteq> None \<and> truthy (activeImageId s) \<and> trim (prompt s) \<noteq> []
        \<and> editHotspot s \<noteq> None)
   \<and> NoImageLoaded \<noteq> NoPrompt \<and> NoPrompt \<noteq> NoHotspot \<and> NoImageLoaded \<noteq> NoHotspot"
  by (simp add: handleGenerate_dispatch_def handleGenerate_def)

theorem handleGenerate_preconditions_witness:
  "currentImage sampleNoImage = None \<and> trim (prompt sampleNoImage) \<noteq> []
     \<and> editHotspot sampleNoImage \<noteq> None
     \<and> handleGenerate_dispatch sampleNoImage = Done (sampleNoImage\<lparr> error := Some NoImageLoaded \<rparr>)
   \<and> currentImage sampleBlankPrompt \<noteq> None \<and> truthy (activeImageId sampleBlankPrompt)
     \<and> trim (prompt sampleBlankPrompt) = [] \<and> editHotspot sampleBlankPrompt \<noteq> None
     \<and> handleGenerate_dispatch sampleBlankPrompt = Done (sampleBlankPrompt\<lparr> error := Some NoPrompt \<rparr>)
   \<and> currentImage sampleNoHotspot \<noteq> None \<and> truthy (activeImageId sampleNoHotspot)
     \<and> trim (prompt sampleNoHotspot) \<noteq> [] \<and> editHotspot sampleNoHotspot = None
     \<and> handleGenerate_dispatch sampleNoHotspot = Done (sampleNoHotspot\<lparr> error := Some NoHotspot \<rparr>)
   \<and> handleGenerate_dispatch sampleReady = Await (fileA, js ''sky'', (1, 2)) sampleLoading"
proof -
  have n: "currentImage sampleNoImage = None" "trim (prompt sampleNoImage) \<noteq> []"
    "editHotspot sampleNoImage \<noteq> None"
    by (simp_all add: sample_defs currentImage_def activeImageState_def trim_def
        is_js_space_def js_def)
  have b: "currentImage sampleBlankPrompt \<noteq> None" "truthy (activeImageId sampleBlankPrompt)"
    "trim (prompt sampleBlankPrompt) = []" "editHotspot sampleBlankPrompt \<noteq> None"
    by (simp_all add: sample_defs currentImage_def activeImageState_def js_index_def trim_def
        is_js_space_def js_def)
  have h: "currentImage sampleNoHotspot \<noteq> None" "truthy (activeImageId sampleNoHotspot)"
    "trim (prompt sampleNoHotspot) \<noteq> []" "editHotspot sampleNoHotspot = None"
    by (simp_all add: sample_defs currentImage_def activeImageState_def js_index_def trim_def
        is_js_space_def js_def)
  have r: "handleGenerate_dispatch sampleReady = Await (fileA, js ''sky'', (1, 2)) sampleLoading"
    by (simp add: handleGenerate_dispatch_def sample_defs currentImage_def
        activeImageState_def js_index_def trim_def is_js_space_def js_def)
  show ?thesis
    using n b h r handleGenerate_preconditions [of sampleNoImage]
      handleGenerate_preconditions [of sampleBlankPrompt]
      handleGenerate_preconditions [of sampleNoHotspot]
    by simp
qed

section \<open>Image Collection\<close>

lemma images_handleDeleteImage:
  "images (handleDeleteImage d s) = filter (\<lambda>img. id_image img \<noteq> d) (images s)"
  by (simp add: handleDeleteImage_def Let_def)

lemma selected_handleDeleteImage:
  "selectedImageIds (handleDeleteImage d s) = selectedImageIds s - {d}"
  by (simp add: handleDeleteImage_def Let_def)

lemma active_handleDeleteImage:
  "activeImageId (handleDeleteImage d s) =
     (if activeImageId s = Some d
      then (case filter (\<lambda>img. id_image img \<noteq> d) (images s) of
              [] \<Rightarrow> None | x # _ \<Rightarrow> Some (id_image x))
      else activeImageId s)"
  by (simp add: handleDeleteImage_def Let_def)

lemma ids_after_delete:
  "id_image ` set (filter (\<lambda>img. id_image img \<noteq> d) imgs) = id_image ` set imgs - {d}"
  by auto

lemma references_ok_handleDeleteImage:
  assumes "references_ok s"
  shows "references_ok (handleDeleteImage d s)"
proof -
  let ?rest = "filter (\<lambda>img. id_image img \<noteq> d) (images s)"
  have sel: "selectedImageIds s - {d} \<subseteq> id_image ` set ?rest"
    using assms unfolding references_ok_def ids_after_delete by blast
  have act: "case activeImageId (handleDeleteImage d s) of None \<Rightarrow> True
             | Some a \<Rightarrow> a \<in> id_image ` set ?rest"
  proof (cases "activeImageId s = Some d")
    case True
    then show ?thesis
      by (cases ?rest) (simp_all add: active_handleDeleteImage del: filter.simps)
  next
    case False
    then show ?thesis
      using assms unfolding references_ok_def ids_after_delete
      by (auto simp: active_handleDeleteImage split: option.splits)
  qed
  show ?thesis
    unfolding references_ok_def images_handleDeleteImage selected_handleDeleteImage
    using sel act by simp
qed

text \<open>
  Claim C8. Deleting the active image makes the first remaining entry active, or none
  when nothing remains. Every delete removes all entries with the deleted identity and
  takes the identity out of the selection. If before the delete the active identity and
  the selection refer to present entries only, so they do after it.
\<close>

theorem delete_keeps_references:
  "(activeImageId s = Some d \<longrightarrow>
      activeImageId (handleDeleteImage d s) =
        (case images (handleDeleteImage d s) of [] \<Rightarrow> None | x # _ \<Rightarrow> Some (id_image x)))
   \<and> images (handleDeleteImage d s) = filter (\<lambda>img. id_image img \<noteq> d) (images s)
   \<and> selectedImageIds (handleDeleteImage d s) = selectedImageIds s - {d}
   \<and> d \<notin> id_image ` set (images (handleDeleteImage d s))
   \<and> (references_ok s \<longrightarrow> references_ok (handleDeleteImage d s))"
  using references_ok_handleDeleteImage [of s d]
  by (auto simp: images_handleDeleteImage selected_handleDeleteImage active_handleDeleteImage)

theorem delete_keeps_references_witness:
  "activeImageId sampleXY = Some (js ''x'') \<and> references_ok sampleXY
   \<and> images (handleDeleteImage (js ''x'') sampleXY) = [sampleImage (js ''y'') [fileA, fileB] 1]
   \<and> activeImageId (handleDeleteImage (js ''x'') sampleXY) = Some (js ''y'')
   \<and> selectedImageIds (handleDeleteImage (js ''x'') sampleXY) = {}
   \<and> references_ok (handleDeleteImage (js ''x'') sampleXY)"
proof -
  have a: "activeImageId sampleXY = Some (js ''x'')" and r: "references_ok sampleXY"
    by (simp_all add: sample_defs references_ok_def)
  have i: "filter (\<lambda>img. id_image img \<noteq> js ''x'') (images sampleXY) =
      [sampleImage (js ''y'') [fileA, fileB] 1]"
    and s: "selectedImageIds sampleXY - {js ''x''} = {}"
    by (simp_all add: sample_defs js_def)
  have n: "id_image (sampleImage (js ''y'') [fileA, fileB] 1) = js ''y''"
    by (simp add: sampleImage_def)
  from delete_keeps_references [of sampleXY "js ''x''"] a r i s n show ?thesis
    by simp
qed

section \<open>Preview Gate\<close>

text \<open>
  Claim C9. With a pending preview and no active image, accepting only clears the
  preview: the state is otherwise unchanged, so no history has a new entry.
\<close>

theorem accept_without_active:
  assumes "previewImage s = Some p" and "activeImageId s = None"
  shows "handleAcceptPreview s = s\<lparr> previewImage := None \<rparr>
       \<and> images (handleAcceptPreview s) = images s
       \<and> previewImage (handleAcceptPreview s) = None"
  using assms by (simp add: handleAcceptPreview_def)

theorem accept_without_active_witness:
  "previewImage sampleOrphan = Some fileD \<and> activeImageId sampleOrphan = None
   \<and> handleAcceptPreview sampleOrphan = sampleXY\<lparr> activeImageId := None \<rparr>
   \<and> images (handleAcceptPreview sampleOrphan) = images sampleXY"
proof -
  have h: "previewImage sampleOrphan = Some fileD" "activeImageId sampleOrphan = None"
    by (simp_all add: sampleOrphan_def)
  have e: "sampleOrphan\<lparr> previewImage := None \<rparr> = sampleXY\<lparr> activeImageId := None \<rparr>"
    "images sampleOrphan = images sampleXY"
    by (simp_all add: sample_defs)
  from accept_without_active [OF h] h e show ?thesis
    by simp
qed

lemma sampleUrl_decodes:
  "dataURLtoFile sampleAtob sampleUrl n =
     Inr \<lparr> fname = n, ftype = js ''image/png'', fbytes = [0x51, 0x55, 0x4A, 0x44] \<rparr>"
  by (simp add: dataURLtoFile_def sampleUrl_def sampleAtob_def is_line_terminator_def
      blobType_def ascii_lower_def js_def)

text \<open>
  Claim C3. On the single-target path of \<open>handleBatchOperation\<close> the part before the call
  only sets the loading flag, the loading message and clears the error. When the call
  has settled, a decodable result only becomes \<open>previewImage\<close> (and the loading flag is
  cleared); a rejected call or an undecodable result only sets the error and clears the
  loading flag. In every case the images, hence every History Stack, are the same as
  before, and the same holds when a retouch settles. \<open>handleCancelPreview\<close> only clears
  the preview. The images change when \<open>handleAcceptPreview\<close> runs.
\<close>

theorem single_target_no_commit:
  "(\<forall>req s1. handleBatchOperation_dispatch operationName s0 = Await req s1 \<longrightarrow>
      s1 = s0\<lparr> isLoading := True, loadingMessage := AIWorking, error := None \<rparr>)
   \<and> (\<forall>v f. outcome = Fulfilled v \<and>
         dataURLtoFile atob v (operationName @ js ''-'' @ name target) = Inr f \<longrightarrow>
       handleBatchOperation_single atob operationName target outcome s =
         s\<lparr> previewImage := Some f, isLoading := False \<rparr>)
   \<and> (\<forall>v e. outcome = Fulfilled v \<and>
         dataURLtoFile atob v (operationName @ js ''-'' @ name target) = Inl e \<longrightarrow>
       handleBatchOperation_single atob operationName target outcome s =
         s\<lparr> error := Some (ApplyFailed operationName (errorMessage e)), isLoading := False \<rparr>)
   \<and> (\<forall>e. outcome = Rejected e \<longrightarrow>
       handleBatchOperation_single atob operationName target outcome s =
         s\<lparr> error := Some (ApplyFailed operationName (errorMessage e)), isLoading := False \<rparr>)
   \<and> images (handleBatchOperation_single atob operationName target outcome s) = images s
   \<and> images (handleGenerate_settle atob now outcome s) = images s
   \<and> handleCancelPreview s = s\<lparr> previewImage := None \<rparr>
   \<and> images (handleCancelPreview s) = images s
   \<and> (\<forall>f a. previewImage s = Some f \<and> activeImageId s = Some a \<and> a \<noteq> [] \<longrightarrow>
        images (handleAcceptPreview s) =
          map (\<lambda>img. if id_image img = a then pushHistory img f else img) (images s))"
proof -
  have d: "\<forall>req s1. handleBatchOperation_dispatch operationName s0 = Await req s1 \<longrightarrow>
      s1 = s0\<lparr> isLoading := True, loadingMessage := AIWorking, error := None \<rparr>"
    by (auto simp: handleBatchOperation_dispatch_def Let_def split: if_splits)
  have i: "images (handleBatchOperation_single atob operationName target outcome s) = images s"
    by (simp add: handleBatchOperation_single_def split: settled.splits sum.splits)
  have a: "\<forall>f a. previewImage s = Some f \<and> activeImageId s = Some a \<and> a \<noteq> [] \<longrightarrow>
        images (handleAcceptPreview s) =
          map (\<lambda>img. if id_image img = a then pushHistory img f else img) (images s)"
    by (simp add: handleAcceptPreview_def addImageToHistory_def Let_def)
  have g: "images (handleGenerate_settle atob now outcome s) = images s"
    by (simp add: handleGenerate_settle_def split: settled.splits sum.splits)
  show ?thesis
    using d i a g by (simp add: handleBatchOperation_single_def handleCancelPreview_def)
qed

theorem single_target_no_commit_witness:
  "handleBatchOperation_dispatch (js ''filter'') sampleXY =
     Await (Single (sampleImage (js ''x'') [fileA, fileB] 0)) sampleBusy
   \<and> dataURLtoFile sampleAtob sampleUrl
        (js ''filter'' @ js ''-'' @ name (sampleImage (js ''x'') [fileA, fileB] 0)) =
       Inr sampleFiltered
   \<and> handleBatchOperation_single sampleAtob (js ''filter'')
        (sampleImage (js ''x'') [fileA, fileB] 0) (Fulfilled sampleUrl) sampleBusy =
       sampleBusy\<lparr> previewImage := Some sampleFiltered, isLoading := False \<rparr>
   \<and> handleBatchOperation_single sampleAtob (js ''filter'')
        (sampleImage (js ''x'') [fileA, fileB] 0) (Rejected (Error (js ''boom''))) sampleBusy =
       sampleBusy\<lparr> error := Some (ApplyFailed (js ''filter'') (js ''boom'')),
                   isLoading := False \<rparr>
   \<and> images (handleCancelPreview (sampleBusy\<lparr> previewImage := Some sampleFiltered,
         isLoading := False \<rparr>)) = images sampleXY"
proof -
  have d: "handleBatchOperation_dispatch (js ''filter'') sampleXY =
     Await (Single (sampleImage (js ''x'') [fileA, fileB] 0)) sampleBusy"
    by (simp add: handleBatchOperation_dispatch_def sampleBusy_def sample_defs js_def)
  have u: "dataURLtoFile sampleAtob sampleUrl
        (js ''filter'' @ js ''-'' @ name (sampleImage (js ''x'') [fileA, fileB] 0)) =
       Inr sampleFiltered"
    by (simp add: sampleUrl_decodes sampleFiltered_def sampleImage_def js_def)
  have m: "errorMessage (Error (js ''boom'')) = js ''boom''"
    by (simp add: errorMessage_def)
  have i: "images sampleBusy = images sampleXY"
    by (simp add: sampleBusy_def)
  show ?thesis
    using d u m i
      single_target_no_commit [of "js ''filter''" sampleXY "Fulfilled sampleUrl" sampleAtob
        "sampleImage (js ''x'') [fileA, fileB] 0" sampleBusy]
      single_target_no_commit [of "js ''filter''" sampleXY "Rejected (Error (js ''boom''))"
        sampleAtob "sampleImage (js ''x'') [fileA, fileB] 0" sampleBusy]
      single_target_no_commit [of "js ''filter''" sampleXY "Fulfilled sampleUrl" sampleAtob
        "sampleImage (js ''x'') [fileA, fileB] 0"
        "sampleBusy\<lparr> previewImage := Some sampleFiltered, isLoading := False \<rparr>"]
    by simp
qed

lemma sampleEdited_decodes:
  "dataURLtoFile sampleAtob sampleUrl (js ''edited-'' @ js ''0'' @ js ''.png'') = Inr sampleEdited"
  by (simp add: sampleUrl_decodes sampleEdited_def js_def)

lemma sample_settle:
  "handleGenerate_settle sampleAtob (js ''0'') (Fulfilled sampleUrl) s =
     s\<lparr> previewImage := Some sampleEdited, editHotspot := None, displayHotspot := None,
        isLoading := False \<rparr>"
  by (simp add: handleGenerate_settle_def sampleEdited_decodes)

text \<open>
  Claim C5, as stated: the preview of a retouch dispatched while \<open>x\<close> was active is
  committed to \<open>x\<close> even if the active image is switched before the accept. It fails:
  the retouch is dispatched on \<open>x\<close>, \<open>y\<close> is made active while the call is outstanding,
  and the accept appends the result to \<open>y\<close> and leaves \<open>x\<close> as it was.
\<close>

theorem accept_by_identity_counterexample:
  "handleGenerate_dispatch sampleReady = Await (fileA, js ''sky'', (1, 2)) sampleLoading
   \<and> activeImageId sampleReady = Some (js ''x'')
   \<and> images sampleReady =
       [sampleImage (js ''x'') [fileA, fileB] 0, sampleImage (js ''y'') [fileA, fileB] 1]
   \<and> images sampleSwitched =
       [sampleImage (js ''x'') [fileA, fileB] 0,
        sampleImage (js ''y'') [fileA, fileB, sampleEdited] 2]"
proof -
  have r: "handleGenerate_dispatch sampleReady = Await (fileA, js ''sky'', (1, 2)) sampleLoading"
    by (simp add: handleGenerate_dispatch_def sample_defs currentImage_def
        activeImageState_def js_index_def trim_def is_js_space_def js_def)
  have sel: "handleSelectImage (js ''y'') sampleLoading =
      sampleLoading\<lparr> activeImageId := Some (js ''y''), editHotspot := None,
        displayHotspot := None, activeTab := Retouch, crop := None, completedCrop := None,
        error := None \<rparr>"
    by (simp add: handleSelectImage_def sample_defs js_def)
  have s: "images sampleSwitched =
       [sampleImage (js ''x'') [fileA, fileB] 0,
        sampleImage (js ''y'') [fileA, fileB, sampleEdited] 2]"
    unfolding sampleSwitched_def sel sample_settle
    by (simp add: handleAcceptPreview_def addImageToHistory_def pushHistory_def js_slice0_def
        Let_def sample_defs js_def)
  show ?thesis
    using r s by (simp add: sample_defs)
qed

text \<open>
  Claim C5, amended. The settled result becomes the preview whatever image is active at
  that moment; nothing records the image it was made from. Accepting appends the preview
  to the entries whose identity is the one active when the accept runs, and to no other
  entry. So it is committed to \<open>x\<close> exactly when \<open>x\<close> is the active image at the accept.
\<close>

theorem accept_commits_to_active:
  "(\<forall>v f. dataURLtoFile atob v (js ''edited-'' @ now @ js ''.png'') = Inr f \<longrightarrow>
      handleGenerate_settle atob now (Fulfilled v) s' =
        s'\<lparr> previewImage := Some f, editHotspot := None, displayHotspot := None,
            isLoading := False \<rparr>)
   \<and> (\<forall>p a. previewImage s = Some p \<and> activeImageId s = Some a \<and> a \<noteq> [] \<longrightarrow>
        handleAcceptPreview s = (addImageToHistory p a s)\<lparr> previewImage := None \<rparr>
      \<and> images (handleAcceptPreview s) =
          map (\<lambda>img. if id_image img = a then pushHistory img p else img) (images s))"
  by (simp add: handleGenerate_settle_def handleAcceptPreview_def addImageToHistory_def Let_def)

theorem accept_commits_to_active_witness:
  "dataURLtoFile sampleAtob sampleUrl (js ''edited-'' @ js ''0'' @ js ''.png'') = Inr sampleEdited
   \<and> activeImageId sampleLoading = Some (js ''x'')
   \<and> previewImage (handleGenerate_settle sampleAtob (js ''0'') (Fulfilled sampleUrl) sampleLoading)
       = Some sampleEdited
   \<and> images (handleAcceptPreview
        (handleGenerate_settle sampleAtob (js ''0'') (Fulfilled sampleUrl) sampleLoading)) =
       [sampleImage (js ''x'') [fileA, sampleEdited] 1, sampleImage (js ''y'') [fileA, fileB] 1]"
proof -
  let ?s = "sampleLoading\<lparr> previewImage := Some sampleEdited, editHotspot := None,
      displayHotspot := None, isLoading := False \<rparr>"
  have a: "activeImageId sampleLoading = Some (js ''x'')" "js ''x'' \<noteq> []"
    by (simp_all add: sample_defs js_def)
  have e: "handleGenerate_settle sampleAtob (js ''0'') (Fulfilled sampleUrl) sampleLoading = ?s"
    using sampleEdited_decodes accept_commits_to_active [of sampleAtob "js ''0''" sampleLoading]
    by simp
  have p: "previewImage ?s = Some sampleEdited \<and> activeImageId ?s = Some (js ''x'') \<and>
      js ''x'' \<noteq> []"
    using a by simp
  have m: "map (\<lambda>img. if id_image img = js ''x'' then pushHistory img sampleEdited else img)
      (images ?s) =
      [sampleImage (js ''x'') [fileA, sampleEdited] 1, sampleImage (js ''y'') [fileA, fileB] 1]"
    by (simp add: sample_defs pushHistory_def js_slice0_def Let_def js_def)
  have "\<forall>p a. previewImage ?s = Some p \<and> activeImageId ?s = Some a \<and> a \<noteq> [] \<longrightarrow>
        handleAcceptPreview ?s = (addImageToHistory p a ?s)\<lparr> previewImage := None \<rparr>
      \<and> images (handleAcceptPreview ?s) =
          map (\<lambda>img. if id_image img = a then pushHistory img p else img) (images ?s)"
    by (rule conjunct2 [OF accept_commits_to_active [of sampleAtob "js ''0''" sampleLoading ?s]])
  then have "images (handleAcceptPreview ?s) =
      map (\<lambda>img. if id_image img = js ''x'' then pushHistory img sampleEdited else img)
        (images ?s)"
    using p by blast
  then show ?thesis
    unfolding e m using sampleEdited_decodes a(1) by simp
qed

section \<open>Uploads and the selection\<close>

lemma newImage_id_truthy: "id_image (newImage u) \<noteq> []"
  by (cases u) (simp add: newImage_def js_def)

text \<open>
  Claim C4, as stated: every identity created by an upload is put into the selection. It
  fails for the second of two files uploaded together: its identity is not selected.
\<close>

theorem upload_selects_all_counterexample:
  "images sampleUpload2 = [newImage (fileA, js ''1'', js ''2''), newImage (fileB, js ''1'', js ''3'')]
   \<and> id_image (newImage (fileB, js ''1'', js ''3'')) = js ''B-1-3''
   \<and> js ''B-1-3'' \<notin> selectedImageIds sampleUpload2
   \<and> selectedImageIds sampleUpload2 = {js ''A-1-2''}"
  by (simp add: sampleUpload2_def handleImageUploads_def newImage_def initialState_def
      fileA_def fileB_def sampleFile_def js_def Let_def)

text \<open>
  Claim C4, amended. An upload of one or more files puts the identity of the first new
  image into the selection and changes the selection in no other way; all new images are
  appended to the collection.
\<close>

theorem upload_selects_first:
  "(files \<noteq> [] \<longrightarrow>
      selectedImageIds (handleImageUploads files s) =
        insert (id_image (newImage (hd files))) (selectedImageIds s))
   \<and> (files = [] \<longrightarrow> selectedImageIds (handleImageUploads files s) = selectedImageIds s)
   \<and> images (handleImageUploads files s) = images s @ map newImage files"
  by (cases files) (simp_all add: handleImageUploads_def Let_def newImage_id_truthy)

theorem upload_selects_first_witness:
  "[(fileA, js ''1'', js ''2''), (fileB, js ''1'', js ''3'')] \<noteq> []
   \<and> selectedImageIds sampleUpload2 = {js ''A-1-2''}
   \<and> length (images sampleUpload2) = 2"
proof -
  have "id_image (newImage (fileA, js ''1'', js ''2'')) = js ''A-1-2''"
    by (simp add: newImage_def fileA_def sampleFile_def js_def)
  then show ?thesis
    using upload_selects_first [of "[(fileA, js ''1'', js ''2''), (fileB, js ''1'', js ''3'')]"
        initialState]
    by (simp add: sampleUpload2_def initialState_def)
qed

section \<open>Batch dispatch\<close>

lemma update_not_Nil: "AList.update k v m \<noteq> []"
  by (cases m) auto

lemma collectResults_Cons:
  "collectResults atob opn ((t, r) # rest) (m, fl) =
     (case r of
        Fulfilled v \<Rightarrow>
          (case dataURLtoFile atob v (opn @ js ''-'' @ name t) of
             Inl e \<Rightarrow> Inl e
           | Inr f \<Rightarrow> collectResults atob opn rest (AList.update (id_image t) f m, fl))
      | Rejected x \<Rightarrow> collectResults atob opn rest (m, fl @ [name t]))"
  by (cases r) simp_all

lemma collectResults_returns:
  assumes "\<forall>(t, r)\<in>set trs. \<forall>v. r = Fulfilled v \<longrightarrow>
             (\<exists>f. dataURLtoFile atob v (opn @ js ''-'' @ name t) = Inr f)"
  shows "\<exists>m' fl'. collectResults atob opn trs (m, fl) = Inr (m', fl')"
  using assms
proof (induction trs arbitrary: m fl)
  case Nil
  then show ?case by simp
next
  case (Cons a trs)
  obtain t r where a: "a = (t, r)" by (cases a)
  have rest: "\<forall>(t, r)\<in>set trs. \<forall>v. r = Fulfilled v \<longrightarrow>
             (\<exists>f. dataURLtoFile atob v (opn @ js ''-'' @ name t) = Inr f)"
    using Cons.prems by simp
  show ?case
  proof (cases r)
    case (Fulfilled v)
    with Cons.prems a obtain f where "dataURLtoFile atob v (opn @ js ''-'' @ name t) = Inr f"
      by auto
    with Fulfilled a Cons.IH [OF rest] show ?thesis by (simp add: collectResults_Cons)
  next
    case (Rejected x)
    with a Cons.IH [OF rest] show ?thesis by (simp add: collectResults_Cons)
  qed
qed

lemma collectResults_failed:
  "collectResults atob opn trs (m, fl) = Inr (m', fl') \<Longrightarrow>
   fl' = fl @ map (\<lambda>p. name (fst p)) (filter (\<lambda>p. is_rejected (snd p)) trs)"
proof (induction trs arbitrary: m fl)
  case Nil
  then show ?case by simp
next
  case (Cons a trs)
  obtain t r where a: "a = (t, r)" by (cases a)
  show ?case
  proof (cases r)
    case (Fulfilled v)
    with Cons.prems a obtain f where
      "collectResults atob opn trs (AList.update (id_image t) f m, fl) = Inr (m', fl')"
      by (auto simp: collectResults_Cons split: sum.splits)
    from Cons.IH [OF this] Fulfilled a show ?thesis by simp
  next
    case (Rejected x)
    with Cons.prems a have
      "collectResults atob opn trs (m, fl @ [name t]) = Inr (m', fl')"
      by (simp add: collectResults_Cons)
    from Cons.IH [OF this] Rejected a show ?thesis by simp
  qed
qed

lemma collectResults_other:
  "collectResults atob opn trs (m, fl) = Inr (m', fl') \<Longrightarrow>
   k \<notin> (\<lambda>p. id_image (fst p)) ` set trs \<Longrightarrow> map_of m' k = map_of m k"
proof (induction trs arbitrary: m fl)
  case Nil
  then show ?case by simp
next
  case (Cons a trs)
  obtain t r where a: "a = (t, r)" by (cases a)
  from Cons.prems(2) a have k: "k \<noteq> id_image t" "k \<notin> (\<lambda>p. id_image (fst p)) ` set trs"
    by auto
  show ?case
  proof (cases r)
    case (Fulfilled v)
    with Cons.prems a obtain f where
      "collectResults atob opn trs (AList.update (id_image t) f m, fl) = Inr (m', fl')"
      by (auto simp: collectResults_Cons split: sum.splits)
    from Cons.IH [OF this k(2)] k(1) show ?thesis by (simp add: update_conv')
  next
    case (Rejected x)
    with Cons.prems a have
      "collectResults atob opn trs (m, fl @ [name t]) = Inr (m', fl')"
      by (simp add: collectResults_Cons)
    from Cons.IH [OF this k(2)] show ?thesis .
  qed
qed

lemma collectResults_target:
  "collectResults atob opn trs (m, fl) = Inr (m', fl') \<Longrightarrow>
   distinct (map (\<lambda>p. id_image (fst p)) trs) \<Longrightarrow> (t, r) \<in> set trs \<Longrightarrow>
   (case r of
      Fulfilled v \<Rightarrow> \<exists>f. dataURLtoFile atob v (opn @ js ''-'' @ name t) = Inr f \<and>
                        map_of m' (id_image t) = Some f
    | Rejected x \<Rightarrow> map_of m' (id_image t) = map_of m (id_image t))"
proof (induction trs arbitrary: m fl)
  case Nil
  then show ?case by simp
next
  case (Cons a trs)
  obtain t0 r0 where a: "a = (t0, r0)" by (cases a)
  from Cons.prems(2) a have fresh: "id_image t0 \<notin> (\<lambda>p. id_image (fst p)) ` set trs"
    and dist: "distinct (map (\<lambda>p. id_image (fst p)) trs)"
    by auto
  show ?case
  proof (cases r0)
    case (Fulfilled v0)
    with Cons.prems(1) a obtain f0 where
      f0: "dataURLtoFile atob v0 (opn @ js ''-'' @ name t0) = Inr f0" and
      rec: "collectResults atob opn trs (AList.update (id_image t0) f0 m, fl) = Inr (m', fl')"
      by (auto simp: collectResults_Cons split: sum.splits)
    show ?thesis
    proof (cases "(t, r) = (t0, r0)")
      case True
      from collectResults_other [OF rec fresh] have "map_of m' (id_image t0) = Some f0"
        by (simp add: update_conv')
      with True Fulfilled f0 show ?thesis by simp
    next
      case False
      with Cons.prems(3) a have mem: "(t, r) \<in> set trs" by auto
      then have "id_image t \<noteq> id_image t0" using fresh by force
      with Cons.IH [OF rec dist mem] show ?thesis
        by (cases r) (simp_all add: update_conv')
    qed
  next
    case (Rejected x0)
    with Cons.prems(1) a have
      rec: "collectResults atob opn trs (m, fl @ [name t0]) = Inr (m', fl')"
      by (simp add: collectResults_Cons)
    show ?thesis
    proof (cases "(t, r) = (t0, r0)")
      case True
      with collectResults_other [OF rec fresh] Rejected show ?thesis by simp
    next
      case False
      with Cons.prems(3) a have mem: "(t, r) \<in> set trs" by auto
      from Cons.IH [OF rec dist mem] show ?thesis .
    qed
  qed
qed

lemma collectResults_Nil:
  "collectResults atob opn trs (m, fl) = Inr (m', fl') \<Longrightarrow>
   (m' = []) = (m = [] \<and> (\<forall>p\<in>set trs. is_rejected (snd p)))"
proof (induction trs arbitrary: m fl)
  case Nil
  then show ?case by simp
next
  case (Cons a trs)
  obtain t r where a: "a = (t, r)" by (cases a)
  show ?case
  proof (cases r)
    case (Fulfilled v)
    with Cons.prems a obtain f where
      "collectResults atob opn trs (AList.update (id_image t) f m, fl) = Inr (m', fl')"
      by (auto simp: collectResults_Cons split: sum.splits)
    from Cons.IH [OF this] Fulfilled a show ?thesis by (simp add: update_not_Nil)
  next
    case (Rejected x)
    with Cons.prems a have
      "collectResults atob opn trs (m, fl @ [name t]) = Inr (m', fl')"
      by (simp add: collectResults_Cons)
    from Cons.IH [OF this] Rejected a show ?thesis by simp
  qed
qed

lemma commitBatch_Nil: "commitBatch [] imgs = imgs"
  by (simp add: commitBatch_def)

lemma handleBatchOperation_multi_calls_eq:
  assumes "collectResults atob opn (zip targets results) ([], []) = Inr (m', fl')"
  shows "handleBatchOperation_multi_calls atob opn targets results =
     Inr ((if m' \<noteq> [] then [SetImages (commitBatch m')] else [])
          @ (if fl' \<noteq> [] then [SetError (Some (BatchFailed opn (length fl') fl'))] else [])
          @ [SetIsLoading False])"
  using assms by (simp add: handleBatchOperation_multi_calls_def)

lemma handleBatchOperation_multi_eq:
  assumes "collectResults atob opn (zip targets results) ([], []) = Inr (m', fl')"
  shows "handleBatchOperation_multi atob opn targets results s =
     Inr (s\<lparr> images := commitBatch m' (images s),
             error := (if fl' = [] then error s else Some (BatchFailed opn (length fl') fl')),
             isLoading := False \<rparr>)"
  using assms
  by (simp add: handleBatchOperation_multi_def handleBatchOperation_multi_calls_def
      commitBatch_Nil)


lemma dispatch_Multi:
  assumes "handleBatchOperation_dispatch opn s = Await (Multi targets) s1"
  shows "targets = filter (\<lambda>img. id_image img \<in> selectedImageIds s) (images s)"
    and "s1 = s\<lparr> isLoading := True, loadingMessage := AIWorking, error := None \<rparr>"
    and "1 < length targets"
proof -
  let ?ts = "filter (\<lambda>img. id_image img \<in> selectedImageIds s) (images s)"
  from assms have a: "length ?ts \<noteq> 0" "length ?ts \<noteq> 1"
    by (auto simp: handleBatchOperation_dispatch_def Let_def split: if_splits)
  from assms a show t: "targets = ?ts"
    and "s1 = s\<lparr> isLoading := True, loadingMessage := AIWorking, error := None \<rparr>"
    by (simp_all add: handleBatchOperation_dispatch_def Let_def)
  from a show "1 < length targets" unfolding t by arith
qed

lemma ball_zip_nth:
  assumes "length ys = length xs"
  shows "(\<forall>p\<in>set (zip xs ys). P (fst p) (snd p)) = (\<forall>i<length xs. P (xs ! i) (ys ! i))"
  using assms by (auto simp: set_zip)

lemmas sample_batch_defs = sampleXYZ_def sampleBusyXYZ_def sampleCommitted_def
  sampleResults_def sampleFiltered_def

text \<open>
  What the multi-target path does when every fulfilled outcome is a data URL that
  decodes. The batch is dispatched from a state \<open>s\<close> with distinct identities and more
  than one selected target; the calls settle with one outcome for each target; \<open>s'\<close>
  is the state at that moment. Then the handler returns, and
  \<^item> it calls \<open>setImages\<close> once if some call was fulfilled and not at all otherwise, so
    all commits are one transition;
  \<^item> an entry of \<open>s'\<close> with the identity of a fulfilled target becomes that entry with
    the decoded file pushed: the entries after its cursor are dropped, the file is
    appended, the cursor moves one up;
  \<^item> an entry with the identity of a rejected target, and an entry that is no target,
    is unchanged;
  \<^item> if some call was rejected, the error carries the number and the names of exactly
    the rejected targets, in target order; if none was, no error is set;
  \<^item> the loading flag is cleared; active identity, selection and preview are untouched.
\<close>

lemma batch_commits_when_decodable:
  assumes disp: "handleBatchOperation_dispatch opn s = Await (Multi targets) s1"
    and dist: "distinct (map id_image (images s))"
    and len: "length results = length targets"
    and dec: "\<forall>i<length targets. \<forall>v. results ! i = Fulfilled v \<longrightarrow>
               (\<exists>f. dataURLtoFile atob v (opn @ js ''-'' @ name (targets ! i)) = Inr f)"
  shows "\<exists>calls fin.
       handleBatchOperation_multi_calls atob opn targets results = Inr calls
     \<and> handleBatchOperation_multi atob opn targets results s' = Inr fin
     \<and> fin = run_setters calls s'
     \<and> length (filter is_SetImages calls) =
         (if \<exists>i<length targets. \<not> is_rejected (results ! i) then 1 else 0)
     \<and> 1 < length targets
     \<and> length (images fin) = length (images s')
     \<and> (\<forall>j<length (images s').
          (\<forall>i<length targets. id_image (images s' ! j) = id_image (targets ! i) \<longrightarrow>
             (case results ! i of
                Fulfilled v \<Rightarrow>
                  \<exists>f. dataURLtoFile atob v (opn @ js ''-'' @ name (targets ! i)) = Inr f
                    \<and> images fin ! j = pushHistory (images s' ! j) f
                    \<and> (history_ok (images s' ! j) \<longrightarrow>
                         history (images fin ! j) =
                           take (nat (historyIndex (images s' ! j)) + 1)
                             (history (images s' ! j)) @ [f]
                       \<and> historyIndex (images fin ! j) = historyIndex (images s' ! j) + 1)
              | Rejected x \<Rightarrow> images fin ! j = images s' ! j))
        \<and> (id_image (images s' ! j) \<notin> id_image ` set targets \<longrightarrow>
             images fin ! j = images s' ! j))
     \<and> error fin =
         (if \<exists>i<length targets. is_rejected (results ! i)
          then Some (BatchFailed opn
                 (length (filter (\<lambda>p. is_rejected (snd p)) (zip targets results)))
                 (map (\<lambda>p. name (fst p)) (filter (\<lambda>p. is_rejected (snd p)) (zip targets results))))
          else error s')
     \<and> isLoading fin = False
     \<and> activeImageId fin = activeImageId s' \<and> selectedImageIds fin = selectedImageIds s'
     \<and> previewImage fin = previewImage s'"
proof -
  let ?trs = "zip targets results"
  let ?failed = "map (\<lambda>p. name (fst p)) (filter (\<lambda>p. is_rejected (snd p)) ?trs)"
  have mem: "(targets ! i, results ! i) \<in> set ?trs" if "i < length targets" for i
    using that len by (auto simp: set_zip)
  have "\<forall>p\<in>set ?trs. \<forall>v. snd p = Fulfilled v \<longrightarrow>
             (\<exists>f. dataURLtoFile atob v (opn @ js ''-'' @ name (fst p)) = Inr f)"
    using dec
      ball_zip_nth [OF len, of "\<lambda>t r. \<forall>v. r = Fulfilled v \<longrightarrow>
        (\<exists>f. dataURLtoFile atob v (opn @ js ''-'' @ name t) = Inr f)"]
    by simp
  then have dec': "\<forall>(t, r)\<in>set ?trs. \<forall>v. r = Fulfilled v \<longrightarrow>
             (\<exists>f. dataURLtoFile atob v (opn @ js ''-'' @ name t) = Inr f)"
    by (simp add: split_beta)
  from collectResults_returns [OF dec'] obtain m' fl' where
    col: "collectResults atob opn ?trs ([], []) = Inr (m', fl')"
    by blast
  have fl': "fl' = ?failed"
    using collectResults_failed [OF col] by simp
  have "distinct (map id_image targets)"
    using dispatch_Multi(1) [OF disp] dist by (simp add: distinct_map_filter)
  moreover have mp: "map (\<lambda>p. id_image (fst p)) ?trs = map id_image targets"
  proof -
    have "map (\<lambda>p. id_image (fst p)) ?trs = map id_image (map fst ?trs)"
      by simp
    also have "map fst ?trs = targets"
      using len by simp
    finally show ?thesis .
  qed
  ultimately have dtrs: "distinct (map (\<lambda>p. id_image (fst p)) ?trs)"
    by simp
  have ids: "(\<lambda>p. id_image (fst p)) ` set ?trs = id_image ` set targets"
    using arg_cong [OF mp, of set] by simp
  define fin where "fin = s'\<lparr> images := commitBatch m' (images s'),
      error := (if fl' = [] then error s' else Some (BatchFailed opn (length fl') fl')),
      isLoading := False \<rparr>"
  define calls where "calls = (if m' \<noteq> [] then [SetImages (commitBatch m')] else [])
      @ (if fl' \<noteq> [] then [SetError (Some (BatchFailed opn (length fl') fl'))] else [])
      @ [SetIsLoading False]"
  have c1: "handleBatchOperation_multi_calls atob opn targets results = Inr calls"
    unfolding calls_def by (rule handleBatchOperation_multi_calls_eq [OF col])
  have c2: "handleBatchOperation_multi atob opn targets results s' = Inr fin"
    unfolding fin_def by (rule handleBatchOperation_multi_eq [OF col])
  have c3: "fin = run_setters calls s'"
    using c1 c2 by (simp add: handleBatchOperation_multi_def)
  have nil: "(m' = []) = (\<forall>i<length targets. is_rejected (results ! i))"
  proof -
    have "(m' = []) = (\<forall>p\<in>set ?trs. is_rejected (snd p))"
      using collectResults_Nil [OF col] by simp
    also have "\<dots> = (\<forall>i<length targets. is_rejected (results ! i))"
      by (rule ball_zip_nth [OF len, of "\<lambda>t r. is_rejected r"])
    finally show ?thesis .
  qed
  have c4: "length (filter is_SetImages calls) =
         (if \<exists>i<length targets. \<not> is_rejected (results ! i) then 1 else 0)"
    using nil by (auto simp: calls_def)
  have img: "images fin = commitBatch m' (images s')"
    by (simp add: fin_def)
  have c6: "length (images fin) = length (images s')"
    by (simp add: img commitBatch_def)
  have nth: "images fin ! j =
      (case map_of m' (id_image (images s' ! j)) of
         Some f \<Rightarrow> pushHistory (images s' ! j) f | None \<Rightarrow> images s' ! j)"
    if "j < length (images s')" for j
    using that by (simp add: img commitBatch_def)
  have c7: "\<forall>j<length (images s').
          (\<forall>i<length targets. id_image (images s' ! j) = id_image (targets ! i) \<longrightarrow>
             (case results ! i of
                Fulfilled v \<Rightarrow>
                  \<exists>f. dataURLtoFile atob v (opn @ js ''-'' @ name (targets ! i)) = Inr f
                    \<and> images fin ! j = pushHistory (images s' ! j) f
                    \<and> (history_ok (images s' ! j) \<longrightarrow>
                         history (images fin ! j) =
                           take (nat (historyIndex (images s' ! j)) + 1)
                             (history (images s' ! j)) @ [f]
                       \<and> historyIndex (images fin ! j) = historyIndex (images s' ! j) + 1)
              | Rejected x \<Rightarrow> images fin ! j = images s' ! j))
        \<and> (id_image (images s' ! j) \<notin> id_image ` set targets \<longrightarrow>
             images fin ! j = images s' ! j)"
  proof (intro allI impI conjI)
    fix j i
    assume j: "j < length (images s')" and i: "i < length targets"
      and eq: "id_image (images s' ! j) = id_image (targets ! i)"
    let ?img = "images s' ! j"
    from collectResults_target [OF col dtrs mem [OF i]]
    have t: "case results ! i of
        Fulfilled v \<Rightarrow> \<exists>f. dataURLtoFile atob v (opn @ js ''-'' @ name (targets ! i)) = Inr f \<and>
                          map_of m' (id_image (targets ! i)) = Some f
      | Rejected x \<Rightarrow> map_of m' (id_image (targets ! i)) = map_of [] (id_image (targets ! i))" .
    show "case results ! i of
        Fulfilled v \<Rightarrow>
          \<exists>f. dataURLtoFile atob v (opn @ js ''-'' @ name (targets ! i)) = Inr f
            \<and> images fin ! j = pushHistory ?img f
            \<and> (history_ok ?img \<longrightarrow>
                 history (images fin ! j) = take (nat (historyIndex ?img) + 1) (history ?img) @ [f]
               \<and> historyIndex (images fin ! j) = historyIndex ?img + 1)
      | Rejected x \<Rightarrow> images fin ! j = ?img"
    proof (cases "results ! i")
      case (Fulfilled v)
      with t obtain f where f: "dataURLtoFile atob v (opn @ js ''-'' @ name (targets ! i)) = Inr f"
        "map_of m' (id_image (targets ! i)) = Some f"
        by auto
      then have p: "images fin ! j = pushHistory ?img f"
        using nth [OF j] eq by simp
      have "history (pushHistory ?img f) = take (nat (historyIndex ?img) + 1) (history ?img) @ [f]
          \<and> historyIndex (pushHistory ?img f) = historyIndex ?img + 1"
        if "history_ok ?img"
        using that by (auto simp: history_ok_def pushHistory_history pushHistory_index min_def)
      with f p Fulfilled show ?thesis by auto
    next
      case (Rejected x)
      with t nth [OF j] eq show ?thesis by simp
    qed
  next
    fix j
    assume j: "j < length (images s')"
      and "id_image (images s' ! j) \<notin> id_image ` set targets"
    then have "map_of m' (id_image (images s' ! j)) = map_of [] (id_image (images s' ! j))"
      using collectResults_other [OF col] ids by simp
    with nth [OF j] show "images fin ! j = images s' ! j" by simp
  qed
  have rej: "(fl' = []) = (\<not> (\<exists>i<length targets. is_rejected (results ! i)))"
  proof -
    have "(fl' = []) = (\<forall>p\<in>set ?trs. \<not> is_rejected (snd p))"
      by (simp add: fl' filter_empty_conv)
    also have "\<dots> = (\<forall>i<length targets. \<not> is_rejected (results ! i))"
      by (rule ball_zip_nth [OF len, of "\<lambda>t r. \<not> is_rejected r"])
    finally show ?thesis by simp
  qed
  have c8: "error fin =
         (if \<exists>i<length targets. is_rejected (results ! i)
          then Some (BatchFailed opn (length (filter (\<lambda>p. is_rejected (snd p)) ?trs)) ?failed)
          else error s')"
    using rej by (auto simp: fin_def fl')
  have c9: "isLoading fin = False" "activeImageId fin = activeImageId s'"
    "selectedImageIds fin = selectedImageIds s'" "previewImage fin = previewImage s'"
    by (simp_all add: fin_def)
  note c5 = dispatch_Multi(3) [OF disp]
  show ?thesis
    by (rule exI [of _ calls], rule exI [of _ fin], intro conjI)
      (fact c1 c2 c3 c4 c5 c6 c7 c8 c9)+
qed

lemma batch_commits_when_decodable_example:
  "handleBatchOperation_dispatch (js ''filter'') sampleXYZ =
     Await (Multi (images sampleXYZ)) sampleBusyXYZ
   \<and> distinct (map id_image (images sampleXYZ))
   \<and> length sampleResults = length (images sampleXYZ)
   \<and> dataURLtoFile sampleAtob sampleUrl (js ''filter'' @ js ''-'' @ name (images sampleXYZ ! 0))
       = Inr sampleFiltered
   \<and> sampleResults ! 1 = Rejected (Error (js ''boom''))
   \<and> dataURLtoFile sampleAtob sampleUrl (js ''filter'' @ js ''-'' @ name (images sampleXYZ ! 2))
       = Inr (sampleFiltered\<lparr> fname := js ''filter-z'' \<rparr>)
   \<and> handleBatchOperation_multi sampleAtob (js ''filter'') (images sampleXYZ) sampleResults
        sampleBusyXYZ = Inr sampleCommitted
   \<and> (\<exists>calls. handleBatchOperation_multi_calls sampleAtob (js ''filter'') (images sampleXYZ)
          sampleResults = Inr calls \<and> length (filter is_SetImages calls) = 1)"
proof -
  have d: "handleBatchOperation_dispatch (js ''filter'') sampleXYZ =
     Await (Multi (images sampleXYZ)) sampleBusyXYZ"
    by (simp add: handleBatchOperation_dispatch_def Let_def sample_batch_defs sample_defs js_def)
  have i: "distinct (map id_image (images sampleXYZ))"
    by (simp add: sample_batch_defs sample_defs js_def)
  have l: "length sampleResults = length (images sampleXYZ)"
    by (simp add: sample_batch_defs sample_defs)
  have "\<forall>r\<in>set sampleResults. \<forall>v. r = Fulfilled v \<longrightarrow> v = sampleUrl"
    by (simp add: sampleResults_def)
  then have u: "\<forall>i<length (images sampleXYZ). \<forall>v. sampleResults ! i = Fulfilled v \<longrightarrow>
      (\<exists>f. dataURLtoFile sampleAtob v (js ''filter'' @ js ''-'' @ name (images sampleXYZ ! i))
            = Inr f)"
    using l sampleUrl_decodes by (metis nth_mem)
  have x: "dataURLtoFile sampleAtob sampleUrl
      (js ''filter'' @ js ''-'' @ name (images sampleXYZ ! 0)) = Inr sampleFiltered"
    and z: "dataURLtoFile sampleAtob sampleUrl
      (js ''filter'' @ js ''-'' @ name (images sampleXYZ ! 2)) =
      Inr (sampleFiltered\<lparr> fname := js ''filter-z'' \<rparr>)"
    and y: "sampleResults ! 1 = Rejected (Error (js ''boom''))"
    by (simp_all add: sampleUrl_decodes sample_batch_defs sample_defs js_def)
  have c: "collectResults sampleAtob (js ''filter'') (zip (images sampleXYZ) sampleResults)
      ([], []) =
      Inr ([(js ''x'', sampleFiltered), (js ''z'', sampleFiltered\<lparr> fname := js ''filter-z'' \<rparr>)],
           [js ''y''])"
    by (simp add: sampleUrl_decodes sample_batch_defs sample_defs js_def)
  have m: "handleBatchOperation_multi sampleAtob (js ''filter'') (images sampleXYZ) sampleResults
        sampleBusyXYZ = Inr sampleCommitted"
    unfolding handleBatchOperation_multi_eq [OF c]
    by (simp add: commitBatch_def pushHistory_def js_slice0_def Let_def sample_batch_defs
        sample_defs js_def)
  have n: "\<exists>i<length (images sampleXYZ). \<not> is_rejected (sampleResults ! i)"
    by (rule exI [of _ 0]) (simp add: sample_batch_defs sample_defs)
  from batch_commits_when_decodable [OF d i l u, of sampleBusyXYZ] n
  have "\<exists>calls. handleBatchOperation_multi_calls sampleAtob (js ''filter'') (images sampleXYZ)
          sampleResults = Inr calls \<and> length (filter is_SetImages calls) = 1"
    by auto
  with d i l x y z m show ?thesis by simp
qed

lemma sampleBadUrl_undecodable:
  "dataURLtoFile atob sampleBadUrl n =
     Inl (Error (js ''Could not parse MIME type from data URL''))"
  by (simp add: dataURLtoFile_def sampleBadUrl_def inlineDataUrl_def js_def)

text \<open>
  Claim C1: after a batch over more than one target, every target whose call succeeded
  has one new snapshot, every target whose call failed is unchanged, and the error names
  the failed targets. The code does not do this when a fulfilled call returns a data URL
  that \<open>dataURLtoFile\<close> refuses. The loop calls \<open>dataURLtoFile\<close> outside any \<open>try\<close>, where
  the single-target path of the same handler calls it inside one, so the exception ends
  the handler before \<open>setImages\<close>, \<open>setError\<close> and \<open>setIsLoading\<close>. In the sample batch the
  first call is fulfilled with a result that decodes, the second is rejected, and the
  third is fulfilled with the URL built from an empty \<open>mimeType\<close>. The handler ends with
  the exception and has called no setter: the first image has no new snapshot, no error
  names the second image, and the loading flag stays set.
\<close>

theorem batch_undecodable_result_drops_commits:
  "handleBatchOperation_dispatch (js ''filter'') sampleXYZ =
     Await (Multi (images sampleXYZ)) sampleBusyXYZ
   \<and> sampleBadResults ! 0 = Fulfilled sampleUrl
   \<and> dataURLtoFile sampleAtob sampleUrl (js ''filter'' @ js ''-'' @ name (images sampleXYZ ! 0))
       = Inr sampleFiltered
   \<and> handleBatchOperation_multi_calls sampleAtob (js ''filter'') (images sampleXYZ)
        sampleBadResults = Inl (Error (js ''Could not parse MIME type from data URL''))
   \<and> handleBatchOperation sampleAtob sampleBadOperation (js ''warm'') (js ''filter'') sampleXYZ =
       Inl (Error (js ''Could not parse MIME type from data URL''))
   \<and> handleBatchOperation_multi_state sampleAtob (js ''filter'') (images sampleXYZ)
        sampleBadResults sampleBusyXYZ = sampleBusyXYZ
   \<and> images sampleBusyXYZ = images sampleXYZ
   \<and> error sampleBusyXYZ = None
   \<and> isLoading sampleBusyXYZ = True"
proof -
  have d: "handleBatchOperation_dispatch (js ''filter'') sampleXYZ =
     Await (Multi (images sampleXYZ)) sampleBusyXYZ"
    by (simp add: handleBatchOperation_dispatch_def Let_def sample_batch_defs sample_defs js_def)
  have o: "map (\<lambda>target. sampleBadOperation (js_index (history target) (historyIndex target))
          (js ''warm'')) (images sampleXYZ) = sampleBadResults"
    by (simp add: sampleBadOperation_def sampleBadResults_def js_index_def sample_batch_defs
        sample_defs fileA_def fileB_def fileC_def sampleFile_def js_def)
  have r: "sampleBadResults ! 0 = Fulfilled sampleUrl"
    by (simp add: sampleBadResults_def)
  have x: "dataURLtoFile sampleAtob sampleUrl
      (js ''filter'' @ js ''-'' @ name (images sampleXYZ ! 0)) = Inr sampleFiltered"
    by (simp add: sampleUrl_decodes sample_batch_defs sample_defs js_def)
  have c: "handleBatchOperation_multi_calls sampleAtob (js ''filter'') (images sampleXYZ)
        sampleBadResults = Inl (Error (js ''Could not parse MIME type from data URL''))"
    by (simp add: handleBatchOperation_multi_calls_def sampleBadResults_def sampleUrl_decodes
        sampleBadUrl_undecodable sample_batch_defs sample_defs)
  have h: "handleBatchOperation sampleAtob sampleBadOperation (js ''warm'') (js ''filter'')
      sampleXYZ = Inl (Error (js ''Could not parse MIME type from data URL''))"
    by (simp add: handleBatchOperation_def d o handleBatchOperation_multi_def c)
  have f: "handleBatchOperation_multi_state sampleAtob (js ''filter'') (images sampleXYZ)
        sampleBadResults sampleBusyXYZ = sampleBusyXYZ"
    by (simp add: handleBatchOperation_multi_state_def c)
  have b: "images sampleBusyXYZ = images sampleXYZ" "error sampleBusyXYZ = None"
    "isLoading sampleBusyXYZ = True"
    by (simp_all add: sampleBusyXYZ_def)
  show ?thesis
    by (intro conjI) (fact d r x c h f b)+
qed

end
